theory Spec2Isabelle
  imports Complex_Main "HOL-Library.AList"
begin

section \<open>Numbers, series and errors\<close>

text \<open>
  The metrics of \<^verbatim>\<open>metrics.py\<close> work on pandas Series of float64 values and return
  float64 scalars. A scalar result is modelled by \<open>fl\<close>: a finite value, positive infinity
  (a rate over a zero time step) or NaN (the mean of nothing, or \<open>0/0\<close>). Finite values are
  exact reals: rounding and overflow of float64 are not modelled. A Series is the list of
  its (timestamp in nanoseconds, value) rows; the values a caller supplies are finite.
  After pandas has aligned two Series on their labels, a row may hold no value (pandas
  writes NaN there); such rows are \<open>None\<close>.
\<close>

datatype fl = Fin real | PInf | NaN

type_synonym series = "(int \<times> real) list"

text \<open>
  The exceptions the code can raise on these inputs: \<open>KeyError\<close> from a column lookup
  \<^verbatim>\<open>pred_trainval[(tau, CV)]\<close>, \<open>ValueError\<close> from comparing two Series that are not
  identically labelled or from converting \<^verbatim>\<open>""\<close> to a float, \<open>AttributeError\<close> from
  calling a method of \<^verbatim>\<open>None\<close>, \<open>TypeError\<close> from giving a flat index two names.
\<close>

datatype py_error = KeyError "real \<times> nat" | ValueError | AttributeError | TypeError

primrec dropna :: "real option list \<Rightarrow> real list" where
  "dropna [] = []"
| "dropna (x # xs) = (case x of None \<Rightarrow> dropna xs | Some v \<Rightarrow> v # dropna xs)"

definition mean_real :: "real list \<Rightarrow> fl" where
  "mean_real xs = (if xs = [] then NaN else Fin (sum_list xs / real (length xs)))"

text \<open>\<^verbatim>\<open>np.mean\<close> of a Series is \<^verbatim>\<open>Series.mean()\<close>: missing rows are skipped.\<close>

definition series_mean :: "real option list \<Rightarrow> fl" where
  "series_mean xs = mean_real (dropna xs)"

text \<open>\<^verbatim>\<open>np.max\<close> of a Series is \<^verbatim>\<open>Series.max()\<close>: missing rows are skipped, NaN when
  nothing is left.\<close>

definition series_max :: "real option list \<Rightarrow> fl" where
  "series_max xs = (case dropna xs of [] \<Rightarrow> NaN | y # ys \<Rightarrow> Fin (fold max ys y))"

text \<open>\<^verbatim>\<open>np.mean\<close> of a plain array: NaN and infinity propagate, the empty array gives NaN.\<close>

primrec the_fin :: "fl \<Rightarrow> real" where
  "the_fin (Fin x) = x"
| "the_fin PInf = 0"
| "the_fin NaN = 0"

definition np_mean :: "fl list \<Rightarrow> fl" where
  "np_mean xs =
     (if xs = [] then NaN
      else if NaN \<in> set xs then NaN
      else if PInf \<in> set xs then PInf
      else Fin (sum_list (map the_fin xs) / real (length xs)))"

text \<open>
  Comparison of two Series (\<^verbatim>\<open><=\<close>, \<^verbatim>\<open>>\<close>) raises \<open>ValueError\<close> unless both carry the same
  labels in the same order; arithmetic aligns on the union of the labels instead and leaves
  a row empty where one side has no such label. Identically labelled Series are combined
  row by row; the alignment of differently labelled ones is written for indexes without
  repeated labels, as timestamps are.
\<close>

definition series_le :: "series \<Rightarrow> series \<Rightarrow> py_error + bool list" where
  "series_le a b =
     (if map fst a = map fst b then Inr (map2 (\<lambda>x y. snd x \<le> snd y) a b) else Inl ValueError)"

definition series_gt :: "series \<Rightarrow> series \<Rightarrow> py_error + bool list" where
  "series_gt a b =
     (if map fst a = map fst b then Inr (map2 (\<lambda>x y. snd x > snd y) a b) else Inl ValueError)"

definition series_sub :: "series \<Rightarrow> series \<Rightarrow> real option list" where
  "series_sub a b =
     (if map fst a = map fst b then map2 (\<lambda>x y. Some (snd x - snd y)) a b
      else map (\<lambda>l. case (map_of a l, map_of b l) of
                       (Some x, Some y) \<Rightarrow> Some (x - y)
                     | _ \<Rightarrow> None)
             (sort (remdups (map fst a @ map fst b))))"

section \<open>Metric functions\<close>

definition coverage :: "series \<Rightarrow> series \<Rightarrow> py_error + fl" where
  "coverage y_true y_pred =
     (case series_le y_true y_pred of
        Inl e \<Rightarrow> Inl e
      | Inr bs \<Rightarrow> Inr (series_mean (map (\<lambda>b. Some (if b then 1 else 0)) bs)))"

definition requirement :: "series \<Rightarrow> series \<Rightarrow> py_error + fl" where
  "requirement y_true y_pred = Inr (series_mean (map (\<lambda>x. Some (snd x)) y_pred))"

definition exceeding :: "series \<Rightarrow> series \<Rightarrow> py_error + fl" where
  "exceeding y_true y_pred =
     (let d = series_sub y_true y_pred in
      case series_gt y_true y_pred of
        Inl e \<Rightarrow> Inl e
      | Inr sel \<Rightarrow> Inr (series_mean (map fst (filter snd (zip d sel)))))"

definition closeness :: "series \<Rightarrow> series \<Rightarrow> py_error + fl" where
  "closeness y_true y_pred = Inr (series_mean (map (map_option abs) (series_sub y_true y_pred)))"

definition max_exceeding :: "series \<Rightarrow> series \<Rightarrow> py_error + fl" where
  "max_exceeding y_true y_pred = Inr (series_max (series_sub y_true y_pred))"

text \<open>One step of the ramp rate: \<open>|dv| / (dt / (1e9 * 3600))\<close> in float64, where a zero
  time step gives infinity, or NaN for \<open>0/0\<close>.\<close>

definition ramp_step :: "real \<Rightarrow> int \<Rightarrow> fl" where
  "ramp_step dv dt =
     (if dt = 0 then (if dv = 0 then NaN else PInf)
      else Fin (\<bar>dv\<bar> / (real_of_int dt / (1000000000 * 3600))))"

definition reserve_ramp_rate :: "series \<Rightarrow> series \<Rightarrow> py_error + fl" where
  "reserve_ramp_rate y_true y_pred =
     (let v = map snd y_pred; idx = map fst y_pred in
      Inr (np_mean (map2 ramp_step
                      (map2 (\<lambda>a b. a - b) (tl v) (butlast v))
                      (map2 (\<lambda>a b. a - b) (tl idx) (butlast idx)))))"

text \<open>Elementwise maximum of the two stacked rows (\<^verbatim>\<open>np.max(..., axis=0)\<close>): NaN where
  a row is missing.\<close>

fun np_max2 :: "real option \<Rightarrow> real option \<Rightarrow> fl" where
  "np_max2 (Some x) (Some y) = Fin (max x y)"
| "np_max2 _ _ = NaN"

definition pinball_loss :: "series \<Rightarrow> series \<Rightarrow> real \<Rightarrow> py_error + fl" where
  "pinball_loss y_true y_pred tau =
     Inr (np_mean (map2 np_max2
                     (map (map_option (\<lambda>x. (1 - tau) * x)) (series_sub y_pred y_true))
                     (map (map_option (\<lambda>x. tau * x)) (series_sub y_true y_pred))))"

text \<open>
  The aggregator receives its metrics as a list of functions and uses each one's
  \<^verbatim>\<open>__name__\<close> as a row label. The seven functions of the module are the values of
  \<open>metric\<close>. \<^verbatim>\<open>metric(y_true, y_pred)\<close> passes no \<open>tau\<close>, so \<open>pinball_loss\<close> runs with
  its current default, which is part of the interpreter's state.
\<close>

datatype metric =
  Coverage | Requirement | Exceeding | Closeness | Max_exceeding | Reserve_ramp_rate | Pinball_loss

fun metric_name :: "metric \<Rightarrow> string" where
  "metric_name Coverage = ''coverage''"
| "metric_name Requirement = ''requirement''"
| "metric_name Exceeding = ''exceeding''"
| "metric_name Closeness = ''closeness''"
| "metric_name Max_exceeding = ''max_exceeding''"
| "metric_name Reserve_ramp_rate = ''reserve_ramp_rate''"
| "metric_name Pinball_loss = ''pinball_loss''"

fun call_metric :: "real \<Rightarrow> metric \<Rightarrow> series \<Rightarrow> series \<Rightarrow> py_error + fl" where
  "call_metric dflt Coverage y_true y_pred = coverage y_true y_pred"
| "call_metric dflt Requirement y_true y_pred = requirement y_true y_pred"
| "call_metric dflt Exceeding y_true y_pred = exceeding y_true y_pred"
| "call_metric dflt Closeness y_true y_pred = closeness y_true y_pred"
| "call_metric dflt Max_exceeding y_true y_pred = max_exceeding y_true y_pred"
| "call_metric dflt Reserve_ramp_rate y_true y_pred = reserve_ramp_rate y_true y_pred"
| "call_metric dflt Pinball_loss y_true y_pred = pinball_loss y_true y_pred dflt"

definition default_metrics :: "metric list" where
  "default_metrics =
     [Coverage, Requirement, Exceeding, Closeness, Max_exceeding, Reserve_ramp_rate, Pinball_loss]"

section \<open>Tables\<close>

text \<open>
  The Prediction Table \<^verbatim>\<open>pred_trainval\<close>: one Series per column key \<open>(tau, fold)\<close>.
  \<^verbatim>\<open>pred_trainval[(tau, CV)]\<close> raises \<open>KeyError\<close> for a key that is not a column.
  Column keys are distinct, and in a DataFrame all columns carry the same labels; the
  theorems below say where they rely on that.
\<close>

type_synonym colkey = "real \<times> nat"

type_synonym pred_table = "(colkey \<times> series) list"

definition pt_get :: "pred_table \<Rightarrow> colkey \<Rightarrow> py_error + series" where
  "pt_get pt k = (case map_of pt k of None \<Rightarrow> Inl (KeyError k) | Some y \<Rightarrow> Inr y)"

text \<open>
  The Metric Result Table \<^verbatim>\<open>df\<close>: row labels (metric names) and columns keyed by
  \<open>(tau, fold)\<close> in insertion order, each holding one cell per row. A cell is the empty
  string the column is created with, or a float.
\<close>

datatype cell = Blank | Num fl

record frame =
  f_index :: "string list"
  f_columns :: "(colkey \<times> cell list) list"

text \<open>\<^verbatim>\<open>df[(tau, CV)] = ""\<close>: a new column is appended, an existing one is overwritten
  in place.\<close>

definition set_column_blank :: "colkey \<Rightarrow> frame \<Rightarrow> frame" where
  "set_column_blank k f =
     f\<lparr>f_columns := AList.update k (replicate (length (f_index f)) Blank) (f_columns f)\<rparr>"

text \<open>\<^verbatim>\<open>df[(tau, CV)][name] = v\<close>: every row of that column labelled \<open>name\<close> takes \<open>v\<close>.
  When no row has that label the assignment enlarges only the temporary Series and the
  frame stays as it is.\<close>

definition set_cell :: "colkey \<Rightarrow> string \<Rightarrow> cell \<Rightarrow> frame \<Rightarrow> frame" where
  "set_cell k name v f =
     f\<lparr>f_columns :=
         AList.map_entry k
           (\<lambda>cs. map2 (\<lambda>label old. if label = name then v else old) (f_index f) cs)
           (f_columns f)\<rparr>"

definition frame_column :: "frame \<Rightarrow> colkey \<Rightarrow> cell list option" where
  "frame_column f k = map_of (f_columns f) k"

definition frame_cell :: "frame \<Rightarrow> string \<Rightarrow> colkey \<Rightarrow> cell option" where
  "frame_cell f name k =
     (case frame_column f k of None \<Rightarrow> None | Some cs \<Rightarrow> map_of (zip (f_index f) cs) name)"

section \<open>Interpreter state\<close>

text \<open>
  What the functions read and write besides their arguments: the default of
  \<open>pinball_loss\<close>'s parameter \<open>tau\<close> (\<^verbatim>\<open>pinball_loss.__defaults__\<close>, \<open>0.975\<close> when the module
  is loaded) and the DataFrame objects. A reference to a DataFrame is its position in
  \<open>frames\<close>; a reference a caller holds denotes an existing object.
\<close>

record py_state =
  pinball_default :: real
  frames :: "frame list"

definition initial_state :: py_state where
  "initial_state = \<lparr>pinball_default = 975 / 1000, frames = []\<rparr>"

definition new_frame :: "frame \<Rightarrow> py_state \<Rightarrow> py_state \<times> nat" where
  "new_frame f s = (s\<lparr>frames := frames s @ [f]\<rparr>, length (frames s))"

text \<open>A direct call \<^verbatim>\<open>pinball_loss(y_true, y_pred)\<close> with no \<open>tau\<close>.\<close>

definition pinball_loss_no_tau :: "py_state \<Rightarrow> series \<Rightarrow> series \<Rightarrow> py_error + fl" where
  "pinball_loss_no_tau s y_true y_pred = pinball_loss y_true y_pred (pinball_default s)"

section \<open>Single-Quantile Aggregator\<close>

text \<open>
  The two loops of \<^verbatim>\<open>compute_metrics_for_specified_tau\<close> work on the one DataFrame
  \<^verbatim>\<open>df\<close>; they are written over that object's value, which the function reads from the
  store before the loops and writes back after them. The frame is returned also when an
  exception leaves the loops: what was written before stays written.
\<close>

fun run_metrics ::
  "real \<Rightarrow> colkey \<Rightarrow> series \<Rightarrow> series \<Rightarrow> metric list \<Rightarrow> frame \<Rightarrow> frame \<times> py_error option" where
  "run_metrics dflt k y_true y_pred [] f = (f, None)"
| "run_metrics dflt k y_true y_pred (m # ms) f =
     (case call_metric dflt m y_true y_pred of
        Inl e \<Rightarrow> (f, Some e)
      | Inr v \<Rightarrow> run_metrics dflt k y_true y_pred ms (set_cell k (metric_name m) (Num v) f))"

fun run_folds ::
  "real \<Rightarrow> series \<Rightarrow> pred_table \<Rightarrow> real \<Rightarrow> metric list \<Rightarrow> nat list \<Rightarrow> frame
     \<Rightarrow> frame \<times> py_error option" where
  "run_folds dflt y_true pt tau ms [] f = (f, None)"
| "run_folds dflt y_true pt tau ms (cv # cvs) f =
     (case pt_get pt (tau, cv) of
        Inl e \<Rightarrow> (f, Some e)
      | Inr y_pred \<Rightarrow>
          (case run_metrics dflt (tau, cv) y_true y_pred ms (set_column_blank (tau, cv) f) of
             (f', Some e) \<Rightarrow> (f', Some e)
           | (f', None) \<Rightarrow> run_folds dflt y_true pt tau ms cvs f'))"

text \<open>
  \<open>df\<close> is \<open>None\<close> or a reference. The parameter \<open>filename\<close> is left at \<open>None\<close>: writing
  the file is outside the model. The last statement,
  \<^verbatim>\<open>df = df.T.set_index(...).T\<close>, builds a new DataFrame with the same rows, column keys and
  cells, and that new object is returned.
\<close>

definition compute_metrics_for_specified_tau ::
  "py_state \<Rightarrow> series \<Rightarrow> pred_table \<Rightarrow> nat option \<Rightarrow> real \<Rightarrow> metric list
     \<Rightarrow> py_state \<times> (py_error + nat)" where
  "compute_metrics_for_specified_tau s output_trainval pred_trainval df tau metrics =
     (let s1 = s\<lparr>pinball_default := tau\<rparr>;
          (s2, d) = (case df of
                       None \<Rightarrow> new_frame \<lparr>f_index = map metric_name metrics, f_columns = []\<rparr> s1
                     | Some a \<Rightarrow> (s1, a));
          (f, r) = run_folds (pinball_default s2) output_trainval pred_trainval tau metrics
                     [0..<10] (frames s2 ! d);
          s3 = s2\<lparr>frames := (frames s2)[d := f]\<rparr>
      in case r of
           Some e \<Rightarrow> (s3, Inl e)
         | None \<Rightarrow> (case new_frame f s3 of (s4, a) \<Rightarrow> (s4, Inr a)))"

text \<open>
  Two descriptions of the loops, used to state what they do: the cells one column ends
  with after the inner loop, and the exception the loops leave with, if any.
\<close>

fun fill_cells ::
  "real \<Rightarrow> series \<Rightarrow> series \<Rightarrow> metric list \<Rightarrow> string list \<Rightarrow> cell list \<Rightarrow> cell list" where
  "fill_cells dflt y_true y_pred [] idx cs = cs"
| "fill_cells dflt y_true y_pred (m # ms) idx cs =
     (case call_metric dflt m y_true y_pred of
        Inl e \<Rightarrow> cs
      | Inr v \<Rightarrow>
          fill_cells dflt y_true y_pred ms idx
            (map2 (\<lambda>label old. if label = metric_name m then Num v else old) idx cs))"

definition compares :: "metric \<Rightarrow> bool" where
  "compares m = (m = Coverage \<or> m = Exceeding)"

definition metrics_error :: "series \<Rightarrow> series \<Rightarrow> metric list \<Rightarrow> py_error option" where
  "metrics_error y_true y_pred ms =
     (if map fst y_true \<noteq> map fst y_pred \<and> list_ex compares ms then Some ValueError else None)"

fun folds_error :: "series \<Rightarrow> pred_table \<Rightarrow> real \<Rightarrow> metric list \<Rightarrow> nat list \<Rightarrow> py_error option" where
  "folds_error y_true pt tau ms [] = None"
| "folds_error y_true pt tau ms (cv # cvs) =
     (case map_of pt (tau, cv) of
        None \<Rightarrow> Some (KeyError (tau, cv))
      | Some y_pred \<Rightarrow>
          (case metrics_error y_true y_pred ms of
             Some e \<Rightarrow> Some e
           | None \<Rightarrow> folds_error y_true pt tau ms cvs))"

text \<open>Fold \<open>cv\<close> raises nothing: its series is in the table and, when the metric list
  holds a comparing metric, is labelled as the observations are.\<close>

definition fold_ok :: "series \<Rightarrow> pred_table \<Rightarrow> real \<Rightarrow> metric list \<Rightarrow> nat \<Rightarrow> bool" where
  "fold_ok y_true pt tau ms cv =
     (case map_of pt (tau, cv) of
        None \<Rightarrow> False
      | Some y_pred \<Rightarrow> \<not> (map fst y_true \<noteq> map fst y_pred \<and> list_ex compares ms))"

definition new_column ::
  "real \<Rightarrow> series \<Rightarrow> pred_table \<Rightarrow> metric list \<Rightarrow> string list \<Rightarrow> colkey \<Rightarrow> cell list" where
  "new_column dflt y_true pt ms idx k =
     fill_cells dflt y_true (the (map_of pt k)) ms idx (replicate (length idx) Blank)"

text \<open>The frame \<open>df\<close> after the loops of a call with quantile \<open>tau\<close>.\<close>

definition extended :: "series \<Rightarrow> pred_table \<Rightarrow> real \<Rightarrow> metric list \<Rightarrow> frame \<Rightarrow> frame" where
  "extended y_true pt tau ms f = fst (run_folds tau y_true pt tau ms [0..<10] f)"

text \<open>The value a metric call returns, and the ten columns one aggregator call adds.\<close>

definition metric_val :: "real \<Rightarrow> metric \<Rightarrow> series \<Rightarrow> series \<Rightarrow> fl" where
  "metric_val dflt m y_true y_pred =
     (case call_metric dflt m y_true y_pred of Inl e \<Rightarrow> NaN | Inr v \<Rightarrow> v)"

definition tau_block ::
  "series \<Rightarrow> pred_table \<Rightarrow> metric list \<Rightarrow> string list \<Rightarrow> real \<Rightarrow> (colkey \<times> cell list) list" where
  "tau_block y_true pt ms idx tau =
     map (\<lambda>cv. ((tau, cv), new_column tau y_true pt ms idx (tau, cv))) [0..<10]"

text \<open>The value of metric \<open>m\<close> for quantile \<open>tau\<close> in fold \<open>cv\<close>, as the aggregator computes
  it: \<open>pinball_loss\<close> runs with \<open>tau\<close>.\<close>

definition fold_val :: "series \<Rightarrow> pred_table \<Rightarrow> real \<Rightarrow> metric \<Rightarrow> nat \<Rightarrow> fl" where
  "fold_val y_true pt tau m cv = metric_val tau m y_true (the (map_of pt (tau, cv)))"

section \<open>Multi-Quantile Aggregator\<close>

text \<open>The sorted distinct quantile levels and fold identifiers among the column keys:
  \<^verbatim>\<open>pred_trainval.columns.levels[0]\<close>, and \<^verbatim>\<open>np.sort(np.unique(...))\<close> in \<open>n_crossings\<close>.\<close>

definition tau_values :: "pred_table \<Rightarrow> real list" where
  "tau_values pt = sort (remdups (map (\<lambda>c. fst (fst c)) pt))"


text \<open>The loop \<^verbatim>\<open>for tau in pred_trainval.columns.levels[0]\<close>: each call receives the table
  the previous one returned, the first one \<open>None\<close>, and always the default metric list.\<close>

fun all_taus_loop ::
  "py_state \<Rightarrow> series \<Rightarrow> pred_table \<Rightarrow> nat option \<Rightarrow> real list
     \<Rightarrow> py_state \<times> (py_error + nat option)" where
  "all_taus_loop s y_true pt df [] = (s, Inr df)"
| "all_taus_loop s y_true pt df (tau # taus) =
     (case compute_metrics_for_specified_tau s y_true pt df tau default_metrics of
        (s', Inl e) \<Rightarrow> (s', Inl e)
      | (s', Inr a) \<Rightarrow> all_taus_loop s' y_true pt (Some a) taus)"

text \<open>
  \<^verbatim>\<open>metrics_value_df.astype('float').mean(axis=1, level=0)\<close>: the conversion raises
  \<open>ValueError\<close> on a cell that is still \<^verbatim>\<open>""\<close>; the mean groups the columns by quantile
  level, in the order in which the levels first appear, and takes for every row the mean
  of the group's cells that are not NaN (pandas skips NaN; NaN when none is left). The
  result has one column per quantile level.
\<close>

record avg_frame =
  a_index :: "string list"
  a_columns :: "(real \<times> fl list) list"

primrec cell_float :: "cell \<Rightarrow> fl" where
  "cell_float Blank = NaN"
| "cell_float (Num v) = v"

definition group_mean :: "fl list \<Rightarrow> fl" where
  "group_mean vs = np_mean (filter (\<lambda>v. v \<noteq> NaN) vs)"

definition first_seen :: "'a list \<Rightarrow> 'a list" where
  "first_seen xs = rev (remdups (rev xs))"

definition mean_level0 :: "frame \<Rightarrow> py_error + avg_frame" where
  "mean_level0 f =
     (if list_ex (\<lambda>c. Blank \<in> set (snd c)) (f_columns f) then Inl ValueError
      else Inr \<lparr>a_index = f_index f,
                a_columns =
                  map (\<lambda>t. (t, map (\<lambda>i. group_mean
                                        (map (\<lambda>c. cell_float (snd c ! i))
                                           (filter (\<lambda>c. fst (fst c) = t) (f_columns f))))
                                [0..<length (f_index f)]))
                    (first_seen (map (\<lambda>c. fst (fst c)) (f_columns f)))\<rparr>)"

definition avg_cell :: "avg_frame \<Rightarrow> string \<Rightarrow> real \<Rightarrow> fl option" where
  "avg_cell t name tau =
     (case map_of (a_columns t) tau of
        None \<Rightarrow> None
      | Some vs \<Rightarrow> map_of (zip (a_index t) vs) name)"

text \<open>What \<open>compute_metrics_for_all_taus\<close> returns: \<^verbatim>\<open>None\<close> (no quantile level in the
  table and no averaging), a reference to the per-fold table, or the averaged table.\<close>

datatype metrics_table = No_table | Per_fold nat | Averaged avg_frame

definition compute_metrics_for_all_taus ::
  "py_state \<Rightarrow> series \<Rightarrow> pred_table \<Rightarrow> bool \<Rightarrow> py_state \<times> (py_error + metrics_table)" where
  "compute_metrics_for_all_taus s output_trainval pred_trainval avg_across_folds =
     (case all_taus_loop s output_trainval pred_trainval None (tau_values pred_trainval) of
        (s', Inl e) \<Rightarrow> (s', Inl e)
      | (s', Inr metrics_value_df) \<Rightarrow>
          if avg_across_folds then
            (case metrics_value_df of
               None \<Rightarrow> (s', Inl AttributeError)
             | Some a \<Rightarrow>
                 (case mean_level0 (frames s' ! a) of
                    Inl e \<Rightarrow> (s', Inl e)
                  | Inr t \<Rightarrow> (s', Inr (Averaged t))))
          else (s', Inr (case metrics_value_df of None \<Rightarrow> No_table | Some a \<Rightarrow> Per_fold a)))"

section \<open>Crossing Detector\<close>








text \<open>Example inputs: two hourly observations and predictions for the quantiles \<open>0.5\<close>
  and \<open>0.95\<close> in all ten folds.\<close>

definition ex_observed :: series where
  "ex_observed = [(0, 10), (3600000000000, 14)]"

definition ex_predictions :: pred_table where
  "ex_predictions =
     map (\<lambda>cv. ((1/2, cv), [(0, 12), (3600000000000, 12)])) [0..<10]
     @ map (\<lambda>cv. ((19/20, cv), [(0, 13), (3600000000000, 15)])) [0..<10]"

text \<open>A state in which a caller holds one table, at reference \<open>0\<close>, with the seven rows
  and no column yet.\<close>

definition ex_state :: py_state where
  "ex_state =
     \<lparr>pinball_default = 975 / 1000,
      frames = [\<lparr>f_index = map metric_name default_metrics, f_columns = []\<rparr>]\<rparr>"

text \<open>Further example inputs: observations stamped half an hour late, so that their
  index differs from the predictions', and predictions that lack fold \<open>9\<close>.\<close>

definition ex_shifted :: series where
  "ex_shifted = [(1800000000000, 10), (5400000000000, 14)]"

definition ex_missing :: pred_table where
  "ex_missing = map (\<lambda>cv. ((1/2, cv), [(0, 12), (3600000000000, 12)])) [0..<9]"

text \<open>Predictions for the quantile \<open>0.5\<close> that lie above every observation in fold \<open>9\<close>
  only, so that \<open>exceeding\<close> is NaN in that fold and \<open>2\<close> in the other nine.\<close>

definition ex_partial :: pred_table where
  "ex_partial =
     map (\<lambda>cv. ((1/2, cv), [(0, 12), (3600000000000, 12)])) [0..<9]
     @ [((1/2, 9), [(0, 15), (3600000000000, 15)])]"

section \<open>Properties of the metric functions\<close>

lemma series_sub_aligned:
  "map fst a = map fst b \<Longrightarrow> series_sub a b = map2 (\<lambda>x y. Some (snd x - snd y)) a b"
  by (simp add: series_sub_def)

lemma dropna_Some [simp]: "dropna (map Some xs) = xs"
  by (induction xs) auto

lemma np_mean_Fin: "xs \<noteq> [] \<Longrightarrow> np_mean (map Fin xs) = Fin (sum_list xs / real (length xs))"
  by (auto simp: np_mean_def comp_def)

lemma pin_aligned:
  assumes "map fst yt = map fst yp"
  shows "pinball_loss yt yp tau = Inr (np_mean (map2 (\<lambda>x y. Fin (max ((1 - tau) * (snd y - snd x)) (tau * (snd x - snd y)))) yt yp))"
proof -
  have l: "length yt = length yp" using assms by (metis length_map)
  have "map2 np_max2
          (map (map_option (\<lambda>x. (1 - tau) * x)) (map2 (\<lambda>x y. Some (snd x - snd y)) yp yt))
          (map (map_option (\<lambda>x. tau * x)) (map2 (\<lambda>x y. Some (snd x - snd y)) yt yp))
        = map2 (\<lambda>x y. Fin (max ((1 - tau) * (snd y - snd x)) (tau * (snd x - snd y)))) yt yp"
    using l by (induction yt yp rule: list_induct2) auto
  then show ?thesis using assms by (simp add: pinball_loss_def series_sub_aligned)
qed


lemma map2_Fin: "map2 (\<lambda>x y. Fin (f x y)) xs ys = map Fin (map2 f xs ys)"
  by (simp add: comp_def split_def)

lemma closeness_aligned:
  assumes "map fst yt = map fst yp"
  shows "closeness yt yp = Inr (mean_real (map2 (\<lambda>x y. \<bar>snd x - snd y\<bar>) yt yp))"
proof -
  have "map (map_option abs) (map2 (\<lambda>x y. Some (snd x - snd y)) yt yp)
        = map Some (map2 (\<lambda>x y. \<bar>snd x - snd y\<bar>) yt yp)"
    by (simp add: comp_def split_def)
  then show ?thesis
    unfolding closeness_def series_sub_aligned [OF assms] series_mean_def
    by (simp only: dropna_Some)
qed

lemma sum_list_scale: "sum_list (map (\<lambda>v. c * v) xs) = c * sum_list (xs :: real list)"
  by (induction xs) (simp_all add: algebra_simps)

text \<open>
  Claim C3. For index-aligned series of length at least 1, \<open>pinball_loss\<close> with
  \<open>tau = 0.5\<close> is half of \<open>closeness\<close>: both return a finite value, and the first is
  \<open>0.5\<close> times the second.
\<close>

theorem pinball_half_closeness:
  assumes "map fst y_true = map fst y_pred" and "y_true \<noteq> []"
  shows "\<exists>c. closeness y_true y_pred = Inr (Fin c)
           \<and> pinball_loss y_true y_pred (1/2) = Inr (Fin (1/2 * c))"
proof -
  have l: "length y_true = length y_pred" using assms(1) by (metis length_map)
  define d where "d = map2 (\<lambda>x y. \<bar>snd x - snd y\<bar>) y_true y_pred"
  have ne: "d \<noteq> []" using assms(2) l unfolding d_def by (cases y_true; cases y_pred) auto
  have h: "map2 (\<lambda>x y. max ((1 - 1/2) * (snd y - snd x)) (1/2 * (snd x - snd y))) y_true y_pred
           = map (\<lambda>v. 1/2 * v) d"
    unfolding d_def using l
    by (induction y_true y_pred rule: list_induct2) (auto simp: max_def abs_if)
  have ne': "map (\<lambda>v. 1/2 * v) d \<noteq> []" using ne by simp
  have c: "closeness y_true y_pred = Inr (Fin (sum_list d / real (length d)))"
    using ne unfolding closeness_aligned [OF assms(1)] d_def [symmetric]
    by (simp add: mean_real_def)
  have "pinball_loss y_true y_pred (1/2) = Inr (np_mean (map Fin (map (\<lambda>v. 1/2 * v) d)))"
    by (simp only: pin_aligned [OF assms(1)] map2_Fin h)
  also have "\<dots> = Inr (Fin (sum_list (map (\<lambda>v. 1/2 * v) d) / real (length (map (\<lambda>v. 1/2 * v) d))))"
    by (simp only: np_mean_Fin [OF ne'])
  also have "\<dots> = Inr (Fin (1/2 * (sum_list d / real (length d))))"
    by (simp only: sum_list_scale length_map) simp
  finally show ?thesis using c by blast
qed

theorem pinball_half_closeness_witness:
  "\<exists>c. closeness [(0, 10), (1, 14)] [(0, 12), (1, 12)] = Inr (Fin c)
       \<and> pinball_loss [(0, 10), (1, 14)] [(0, 12), (1, 12)] (1/2) = Inr (Fin (1/2 * c))"
  using pinball_half_closeness [of "[(0, 10), (1, 14)]" "[(0, 12), (1, 12)]"] by simp

text \<open>
  Claim C10. For index-aligned series of length at least 1 and \<open>0 \<le> tau \<le> 1\<close>,
  \<open>pinball_loss\<close> returns a finite value that is not negative.
\<close>

theorem pinball_nonneg:
  assumes "map fst y_true = map fst y_pred" and "y_true \<noteq> []" and "0 \<le> tau" and "tau \<le> 1"
  shows "\<exists>v. pinball_loss y_true y_pred tau = Inr (Fin v) \<and> 0 \<le> v"
proof -
  have l: "length y_true = length y_pred" using assms(1) by (metis length_map)
  define t where "t = map2 (\<lambda>x y. max ((1 - tau) * (snd y - snd x)) (tau * (snd x - snd y))) y_true y_pred"
  have ne: "t \<noteq> []" using assms(2) l unfolding t_def by (cases y_true; cases y_pred) auto
  have pos: "0 \<le> max ((1 - tau) * (p - a)) (tau * (a - p))" for a p :: real
  proof (cases "a \<le> p")
    case True
    then have "0 \<le> (1 - tau) * (p - a)" using assms(4) by simp
    then show ?thesis by (simp add: le_max_iff_disj)
  next
    case False
    then have "0 \<le> tau * (a - p)" using assms(3) by simp
    then show ?thesis by (simp add: le_max_iff_disj)
  qed
  have "\<forall>v \<in> set t. 0 \<le> v"
    unfolding t_def using pos by (auto simp: set_zip)
  then have "0 \<le> sum_list t" by (simp add: sum_list_nonneg)
  then have nn: "0 \<le> sum_list t / real (length t)" by simp
  have "pinball_loss y_true y_pred tau = Inr (np_mean (map Fin t))"
    by (simp only: pin_aligned [OF assms(1)] map2_Fin t_def)
  then have "pinball_loss y_true y_pred tau = Inr (Fin (sum_list t / real (length t)))"
    by (simp only: np_mean_Fin [OF ne])
  then show ?thesis using nn by blast
qed

theorem pinball_nonneg_witness:
  "\<exists>v. pinball_loss [(0, 10), (1, 14)] [(0, 12), (1, 12)] (975 / 1000) = Inr (Fin v) \<and> 0 \<le> v"
  using pinball_nonneg [of "[(0, 10), (1, 14)]" "[(0, 12), (1, 12)]" "975 / 1000"] by simp

text \<open>
  Claim C4. On observed \<open>[10, 10, 10]\<close> and predicted \<open>[12, 12, 12]\<close> with the same
  index, coverage is \<open>1.0\<close>, closeness \<open>2.0\<close>, requirement \<open>12.0\<close>, exceeding NaN (the mean
  of no rows) and max_exceeding \<open>-2.0\<close>.
\<close>

theorem example_metrics:
  "coverage [(i0, 10), (i1, 10), (i2, 10)] [(i0, 12), (i1, 12), (i2, 12)] = Inr (Fin 1)
   \<and> closeness [(i0, 10), (i1, 10), (i2, 10)] [(i0, 12), (i1, 12), (i2, 12)] = Inr (Fin 2)
   \<and> requirement [(i0, 10), (i1, 10), (i2, 10)] [(i0, 12), (i1, 12), (i2, 12)] = Inr (Fin 12)
   \<and> exceeding [(i0, 10), (i1, 10), (i2, 10)] [(i0, 12), (i1, 12), (i2, 12)] = Inr NaN
   \<and> max_exceeding [(i0, 10), (i1, 10), (i2, 10)] [(i0, 12), (i1, 12), (i2, 12)]
       = Inr (Fin (- 2))"
  by (simp add: coverage_def closeness_def requirement_def exceeding_def max_exceeding_def
      series_le_def series_gt_def series_sub_def series_mean_def mean_real_def series_max_def)

text \<open>
  Claim C8, as the code has it. No metric function checks the number of points and none
  raises on too few: \<open>reserve_ramp_rate\<close> on fewer than 2 points takes the mean of an
  empty array and returns NaN, and on empty series the other six return NaN as well.
\<close>

theorem short_series_give_nan:
  "(length y_pred < 2 \<longrightarrow> reserve_ramp_rate y_true y_pred = Inr NaN)
   \<and> coverage [] [] = Inr NaN
   \<and> requirement y_true [] = Inr NaN
   \<and> exceeding [] [] = Inr NaN
   \<and> closeness [] [] = Inr NaN
   \<and> max_exceeding [] [] = Inr NaN
   \<and> pinball_loss [] [] tau = Inr NaN"
proof -
  have "reserve_ramp_rate y_true y_pred = Inr NaN" if "length y_pred < 2"
    using that by (cases y_pred; cases "tl y_pred") (auto simp: reserve_ramp_rate_def np_mean_def)
  then show ?thesis
    by (simp add: coverage_def closeness_def requirement_def exceeding_def max_exceeding_def
        pinball_loss_def series_le_def series_gt_def series_sub_def series_mean_def
        mean_real_def series_max_def np_mean_def)
qed

theorem short_series_give_nan_witness:
  "length [(0::int, 5::real)] < 2 \<and> reserve_ramp_rate [(0, 4)] [(0, 5)] = Inr NaN"
  using short_series_give_nan [of "[(0, 5)]" "[(0, 4)]"] by simp

text \<open>
  The claim as the specification states it fails: on a series of one point
  \<open>reserve_ramp_rate\<close> returns a value, NaN, and raises nothing.
\<close>

theorem ramp_rate_one_point_counterexample:
  "reserve_ramp_rate [(0, 10)] [(0, 12)] = Inr NaN
   \<and> (\<nexists>e. reserve_ramp_rate [(0, 10)] [(0, 12)] = Inl e)"
  by (simp add: reserve_ramp_rate_def np_mean_def)

section \<open>Properties of the Single-Quantile Aggregator\<close>

lemma call_metric_error:
  "call_metric d m yt yp = Inl e \<longleftrightarrow> compares m \<and> map fst yt \<noteq> map fst yp \<and> e = ValueError"
  by (cases m)
     (auto simp: compares_def coverage_def requirement_def exceeding_def closeness_def
        max_exceeding_def reserve_ramp_rate_def pinball_loss_def series_le_def series_gt_def
        Let_def split: sum.splits)

lemma run_metrics_error: "snd (run_metrics d k yt yp ms f) = metrics_error yt yp ms"
proof (induction ms arbitrary: f)
  case Nil
  then show ?case by (simp add: metrics_error_def)
next
  case (Cons m ms)
  show ?case
  proof (cases "call_metric d m yt yp")
    case (Inl e)
    then show ?thesis using call_metric_error [of d m yt yp e]
      by (simp add: metrics_error_def)
  next
    case (Inr v)
    then have "\<not> (compares m \<and> map fst yt \<noteq> map fst yp)"
      using call_metric_error [of d m yt yp ValueError] by auto
    then show ?thesis using Inr Cons.IH [of "set_cell k (metric_name m) (Num v) f"]
      by (auto simp: metrics_error_def)
  qed
qed

lemma run_folds_error: "snd (run_folds d yt pt tau ms cvs f) = folds_error yt pt tau ms cvs"
proof (induction cvs arbitrary: f)
  case Nil
  then show ?case by simp
next
  case (Cons cv cvs)
  show ?case
  proof (cases "map_of pt (tau, cv)")
    case None
    then show ?thesis by (simp add: pt_get_def)
  next
    case (Some yp)
    obtain f' r where rm: "run_metrics d (tau, cv) yt yp ms (set_column_blank (tau, cv) f) = (f', r)"
      by (cases "run_metrics d (tau, cv) yt yp ms (set_column_blank (tau, cv) f)")
    then have r: "r = metrics_error yt yp ms"
      using run_metrics_error [of d "(tau, cv)" yt yp ms "set_column_blank (tau, cv) f"] by simp
    show ?thesis using Some rm r Cons.IH [of f']
      by (cases "metrics_error yt yp ms") (simp_all add: pt_get_def)
  qed
qed

lemma map_entry_comp: "AList.map_entry k g (AList.map_entry k h xs) = AList.map_entry k (g \<circ> h) xs"
  by (induction xs) auto

lemma run_metrics_frame:
  "fst (run_metrics d k yt yp ms f)
   = f\<lparr>f_columns := AList.map_entry k (fill_cells d yt yp ms (f_index f)) (f_columns f)\<rparr>"
proof (induction ms arbitrary: f)
  case Nil
  have "AList.map_entry k (\<lambda>cs. cs) xs = xs" for xs :: "(colkey \<times> cell list) list"
    by (induction xs) auto
  then show ?case by (simp add: fun_eq_iff)
next
  case (Cons m ms)
  show ?case
  proof (cases "call_metric d m yt yp")
    case (Inl e)
    have "AList.map_entry k (\<lambda>cs. cs) xs = xs" for xs :: "(colkey \<times> cell list) list"
      by (induction xs) auto
    then show ?thesis using Inl by simp
  next
    case (Inr v)
    show ?thesis using Inr
      by (simp add: Cons.IH set_cell_def map_entry_comp comp_def)
  qed
qed


lemma run_metrics_index [simp]: "f_index (fst (run_metrics d k yt yp ms f)) = f_index f"
  by (simp add: run_metrics_frame)

lemma run_metrics_column:
  "map_of (f_columns (fst (run_metrics d k yt yp ms f))) k' =
     (if k' = k then map_option (fill_cells d yt yp ms (f_index f)) (map_of (f_columns f) k)
      else map_of (f_columns f) k')"
  by (simp add: run_metrics_frame map_of_map_entry split: option.splits)

lemma run_folds_index [simp]: "f_index (fst (run_folds d yt pt tau ms cvs f)) = f_index f"
proof (induction cvs arbitrary: f)
  case Nil
  then show ?case by simp
next
  case (Cons cv cvs)
  show ?case
  proof (cases "map_of pt (tau, cv)")
    case None
    then show ?thesis by (simp add: pt_get_def)
  next
    case (Some yp)
    obtain f' r where rm: "run_metrics d (tau, cv) yt yp ms (set_column_blank (tau, cv) f) = (f', r)"
      by (cases "run_metrics d (tau, cv) yt yp ms (set_column_blank (tau, cv) f)")
    then have "f_index f' = f_index f"
      using run_metrics_index [of d "(tau, cv)" yt yp ms "set_column_blank (tau, cv) f"]
      by (simp add: set_column_blank_def)
    then show ?thesis using Some rm Cons.IH [of f']
      by (cases r) (simp_all add: pt_get_def)
  qed
qed

lemma run_folds_column:
  assumes "folds_error yt pt tau ms cvs = None"
  shows "map_of (f_columns (fst (run_folds d yt pt tau ms cvs f))) k =
     (if fst k = tau \<and> snd k \<in> set cvs then Some (new_column d yt pt ms (f_index f) k)
      else map_of (f_columns f) k)"
  using assms
proof (induction cvs arbitrary: f)
  case Nil
  then show ?case by simp
next
  case (Cons cv cvs)
  from Cons.prems obtain yp where yp: "map_of pt (tau, cv) = Some yp"
    by (cases "map_of pt (tau, cv)") auto
  with Cons.prems have me: "metrics_error yt yp ms = None" and fe: "folds_error yt pt tau ms cvs = None"
    by (auto split: option.splits)
  define f1 where "f1 = set_column_blank (tau, cv) f"
  define f2 where "f2 = fst (run_metrics d (tau, cv) yt yp ms f1)"
  have rm: "run_metrics d (tau, cv) yt yp ms f1 = (f2, None)"
    using run_metrics_error [of d "(tau, cv)" yt yp ms f1] me
    by (simp add: f2_def prod_eq_iff)
  have step: "run_folds d yt pt tau ms (cv # cvs) f = run_folds d yt pt tau ms cvs f2"
    using yp rm by (simp add: pt_get_def f1_def)
  have idx2: "f_index f2 = f_index f"
    by (simp add: f2_def f1_def set_column_blank_def)
  have col2: "map_of (f_columns f2) k =
      (if k = (tau, cv) then Some (new_column d yt pt ms (f_index f) k) else map_of (f_columns f) k)"
    using yp
    by (simp add: f2_def run_metrics_column f1_def set_column_blank_def update_conv'
        new_column_def)
  show ?case
    unfolding step Cons.IH [OF fe, of f2] idx2 col2
    by (cases k) auto
qed


lemma compute_fresh:
  "compute_metrics_for_specified_tau s yt pt None tau ms =
     (let F = extended yt pt tau ms \<lparr>f_index = map metric_name ms, f_columns = []\<rparr> in
      case folds_error yt pt tau ms [0..<10] of
        Some e \<Rightarrow> (s\<lparr>pinball_default := tau, frames := frames s @ [F]\<rparr>, Inl e)
      | None \<Rightarrow> (s\<lparr>pinball_default := tau, frames := frames s @ [F, F]\<rparr>,
                  Inr (Suc (length (frames s)))))"
proof -
  define f0 where "f0 = \<lparr>f_index = map metric_name ms, f_columns = []\<rparr>"
  obtain F r where rf: "run_folds tau yt pt tau ms [0..<10] f0 = (F, r)"
    by (cases "run_folds tau yt pt tau ms [0..<10] f0")
  have F: "F = extended yt pt tau ms f0" by (simp add: extended_def rf)
  have r: "r = folds_error yt pt tau ms [0..<10]"
    using run_folds_error [of tau yt pt tau ms "[0..<10]" f0] rf by simp
  show ?thesis
    unfolding compute_metrics_for_specified_tau_def f0_def [symmetric] F [symmetric] r [symmetric]
    by (cases r) (simp_all add: new_frame_def rf Let_def)
qed

lemma compute_extend:
  assumes "a < length (frames s)"
  shows "compute_metrics_for_specified_tau s yt pt (Some a) tau ms =
     (let F = extended yt pt tau ms (frames s ! a) in
      case folds_error yt pt tau ms [0..<10] of
        Some e \<Rightarrow> (s\<lparr>pinball_default := tau, frames := (frames s)[a := F]\<rparr>, Inl e)
      | None \<Rightarrow> (s\<lparr>pinball_default := tau, frames := (frames s)[a := F] @ [F]\<rparr>,
                  Inr (length (frames s))))"
proof -
  define f0 where "f0 = frames s ! a"
  obtain F r where rf: "run_folds tau yt pt tau ms [0..<10] f0 = (F, r)"
    by (cases "run_folds tau yt pt tau ms [0..<10] f0")
  have F: "F = extended yt pt tau ms f0" by (simp add: extended_def rf)
  have r: "r = folds_error yt pt tau ms [0..<10]"
    using run_folds_error [of tau yt pt tau ms "[0..<10]" f0] rf by simp
  show ?thesis
    unfolding compute_metrics_for_specified_tau_def f0_def [symmetric] F [symmetric] r [symmetric]
    by (cases r) (simp_all add: new_frame_def rf Let_def f0_def [symmetric])
qed

lemma compute_default [simp]:
  "pinball_default (fst (compute_metrics_for_specified_tau s yt pt df tau ms)) = tau"
  by (simp add: compute_metrics_for_specified_tau_def new_frame_def Let_def
      split: option.splits prod.splits)

lemma upt10: "[0..<10] = [0, 1, 2, 3, 4, 5, 6, 7, 8, 9::nat]"
  by code_simp

lemma upt9: "[0..<9] = [0, 1, 2, 3, 4, 5, 6, 7, 8::nat]"
  by code_simp

lemma ex_half_ok: "folds_error ex_observed ex_predictions (1/2) ms [0..<10] = None"
  by (simp add: ex_observed_def ex_predictions_def metrics_error_def upt10)

lemma ex_95_ok: "folds_error ex_observed ex_predictions (19/20) ms [0..<10] = None"
  by (simp add: ex_observed_def ex_predictions_def metrics_error_def upt10)

lemma ex_column_half:
  "new_column (1/2) ex_observed ex_predictions default_metrics
     (map metric_name default_metrics) (1/2, 0)
   = [Num (Fin (1/2)), Num (Fin 12), Num (Fin 2), Num (Fin 2), Num (Fin 2), Num (Fin 0),
      Num (Fin 1)]"
  by (simp add: new_column_def ex_observed_def ex_predictions_def default_metrics_def upt10
      coverage_def closeness_def requirement_def exceeding_def max_exceeding_def
      reserve_ramp_rate_def pinball_loss_def ramp_step_def np_mean_def
      series_le_def series_gt_def series_sub_def series_mean_def mean_real_def series_max_def)

lemma extended_index [simp]: "f_index (extended yt pt tau ms f) = f_index f"
  by (simp add: extended_def)

lemma extended_column:
  assumes "folds_error yt pt tau ms [0..<10] = None"
  shows "frame_column (extended yt pt tau ms f) k =
     (if fst k = tau \<and> snd k < 10 then Some (new_column tau yt pt ms (f_index f) k)
      else frame_column f k)"
  by (simp add: frame_column_def extended_def run_folds_column [OF assms])

text \<open>
  Claim C1, as the code has it. The aggregator binds the quantile by assigning
  \<^verbatim>\<open>pinball_loss.__defaults__ = (tau,)\<close>, its first statement: after every call, whether
  it returns or raises, the default of \<open>pinball_loss\<close> is the \<open>tau\<close> of that call, and a
  later direct call of \<open>pinball_loss\<close> without \<open>tau\<close> computes the loss for that \<open>tau\<close>.
\<close>

theorem aggregator_sets_pinball_default:
  "pinball_default (fst (compute_metrics_for_specified_tau s yt pt df tau ms)) = tau
   \<and> pinball_loss_no_tau (fst (compute_metrics_for_specified_tau s yt pt df tau ms))
         y_true y_pred
       = pinball_loss y_true y_pred tau"
  by (simp add: pinball_loss_no_tau_def)

text \<open>
  The claim as the specification states it fails: with the default at \<open>0.975\<close>, a direct
  call on observed \<open>[10]\<close>, predicted \<open>[12]\<close> gives \<open>0.05\<close>; after a successful aggregator
  call with \<open>tau = 0.5\<close> the same direct call gives \<open>1\<close>.
\<close>

theorem pinball_default_changed_counterexample:
  "pinball_loss_no_tau initial_state [(0, 10)] [(0, 12)] = Inr (Fin (1/20))
   \<and> (\<exists>a. snd (compute_metrics_for_specified_tau initial_state ex_observed ex_predictions
                  None (1/2) default_metrics) = Inr a)
   \<and> pinball_loss_no_tau
         (fst (compute_metrics_for_specified_tau initial_state ex_observed ex_predictions
                 None (1/2) default_metrics))
         [(0, 10)] [(0, 12)]
       = Inr (Fin 1)"
proof -
  have "pinball_loss [(0, 10)] [(0, 12)] (975/1000) = Inr (Fin (1/20))"
    and "pinball_loss [(0, 10)] [(0, 12)] (1/2) = Inr (Fin 1)"
    by (simp_all add: pinball_loss_def series_sub_def np_mean_def)
  then show ?thesis
    by (simp add: pinball_loss_no_tau_def initial_state_def compute_fresh ex_half_ok Let_def)
qed

text \<open>
  Claim C9, as the code has it. When an existing table is passed in, a call that returns
  has written the ten \<open>(tau, fold)\<close> columns into the caller's table object in place
  (its rows, its other columns and all other tables stay as they were) and returns a
  new table object that holds the same rows, columns and cells as the caller's table
  now does.
\<close>

theorem aggregator_mutates_passed_table:
  assumes "a < length (frames s)"
      and "compute_metrics_for_specified_tau s yt pt (Some a) tau ms = (s', Inr r)"
  shows "r = length (frames s) \<and> length (frames s') = Suc (length (frames s))
         \<and> frames s' ! r = frames s' ! a
         \<and> f_index (frames s' ! a) = f_index (frames s ! a)
         \<and> (\<forall>k. frame_column (frames s' ! a) k =
                  (if fst k = tau \<and> snd k < 10
                   then Some (new_column tau yt pt ms (f_index (frames s ! a)) k)
                   else frame_column (frames s ! a) k))
         \<and> (\<forall>b. b < length (frames s) \<and> b \<noteq> a \<longrightarrow> frames s' ! b = frames s ! b)"
proof -
  have ok: "folds_error yt pt tau ms [0..<10] = None"
    using assms(2) by (simp add: compute_extend [OF assms(1)] Let_def split: option.splits)
  define F where "F = extended yt pt tau ms (frames s ! a)"
  have s': "s' = s\<lparr>pinball_default := tau, frames := (frames s)[a := F] @ [F]\<rparr>"
    and r: "r = length (frames s)"
    using assms(2) ok by (simp_all add: compute_extend [OF assms(1)] Let_def F_def)
  have at_a: "frames s' ! a = F" using assms(1) by (simp add: s' nth_append)
  have at_r: "frames s' ! r = F" by (simp add: s' r nth_append)
  have other: "frames s' ! b = frames s ! b" if "b < length (frames s)" "b \<noteq> a" for b
    using that by (simp add: s' nth_append)
  have len: "length (frames s') = Suc (length (frames s))" by (simp add: s')
  have idx: "f_index (frames s' ! a) = f_index (frames s ! a)"
    unfolding at_a by (simp add: F_def)
  have col: "frame_column (frames s' ! a) k =
      (if fst k = tau \<and> snd k < 10
       then Some (new_column tau yt pt ms (f_index (frames s ! a)) k)
       else frame_column (frames s ! a) k)" for k
    unfolding at_a F_def by (rule extended_column [OF ok])
  have same: "frames s' ! r = frames s' ! a" by (simp only: at_a at_r)
  from r len same idx col other show ?thesis by blast
qed

theorem aggregator_mutates_passed_table_witness:
  "0 < length (frames ex_state)
   \<and> (\<exists>s'. compute_metrics_for_specified_tau ex_state ex_observed ex_predictions (Some 0)
              (1/2) default_metrics = (s', Inr 1)
          \<and> frames s' ! 1 = frames s' ! 0
          \<and> frame_column (frames s' ! 0) (19/20, 3) = frame_column (frames ex_state ! 0) (19/20, 3))"
proof -
  have l: "0 < length (frames ex_state)" by (simp add: ex_state_def)
  obtain s' r where c: "compute_metrics_for_specified_tau ex_state ex_observed ex_predictions
      (Some 0) (1/2) default_metrics = (s', Inr r)"
    by (simp add: compute_extend [OF l] ex_half_ok Let_def)
  note t = aggregator_mutates_passed_table [OF l c]
  have r: "r = 1" using t by (simp add: ex_state_def)
  have "frames s' ! r = frames s' ! 0" using t by blast
  then have same: "frames s' ! 1 = frames s' ! 0" by (simp only: r)
  have "frame_column (frames s' ! 0) (19/20, 3) =
      (if fst (19/20 :: real, 3 :: nat) = 1/2 \<and> snd (19/20 :: real, 3 :: nat) < 10
       then Some (new_column (1/2) ex_observed ex_predictions default_metrics
                    (f_index (frames ex_state ! 0)) (19/20, 3))
       else frame_column (frames ex_state ! 0) (19/20, 3))"
    using t by blast
  then have col: "frame_column (frames s' ! 0) (19/20, 3)
      = frame_column (frames ex_state ! 0) (19/20, 3)"
    by simp
  from l c r same col show ?thesis by blast
qed

text \<open>
  The claim as the specification states it fails: a table passed in without a column
  \<open>(0.5, 0)\<close> holds that column, filled, after the call.
\<close>

theorem passed_table_changed_counterexample:
  "frame_column (frames ex_state ! 0) (1/2, 0) = None
   \<and> (\<exists>a. snd (compute_metrics_for_specified_tau ex_state ex_observed ex_predictions
                  (Some 0) (1/2) default_metrics) = Inr a)
   \<and> frame_column
         (frames (fst (compute_metrics_for_specified_tau ex_state ex_observed ex_predictions
                         (Some 0) (1/2) default_metrics)) ! 0)
         (1/2, 0)
       = Some [Num (Fin (1/2)), Num (Fin 12), Num (Fin 2), Num (Fin 2), Num (Fin 2),
               Num (Fin 0), Num (Fin 1)]"
proof -
  have l: "0 < length (frames ex_state)" by (simp add: ex_state_def)
  have "frame_column (extended ex_observed ex_predictions (1/2) default_metrics
          (frames ex_state ! 0)) (1/2, 0)
        = Some (new_column (1/2) ex_observed ex_predictions default_metrics
                  (map metric_name default_metrics) (1/2, 0))"
    by (simp add: extended_column [OF ex_half_ok] ex_state_def)
  then show ?thesis
    by (simp add: compute_extend [OF l] ex_half_ok Let_def ex_column_half)
       (simp add: ex_state_def frame_column_def)
qed

lemma compute_fresh_returns:
  assumes "compute_metrics_for_specified_tau s yt pt None tau ms = (s1, Inr a1)"
  shows "folds_error yt pt tau ms [0..<10] = None"
    and "a1 < length (frames s1)"
    and "frames s1 ! a1 = extended yt pt tau ms \<lparr>f_index = map metric_name ms, f_columns = []\<rparr>"
  using assms by (auto simp: compute_fresh Let_def nth_append split: option.splits)

lemma compute_extend_returns:
  assumes "a < length (frames s)"
      and "compute_metrics_for_specified_tau s yt pt (Some a) tau ms = (s', Inr r)"
  shows "folds_error yt pt tau ms [0..<10] = None"
    and "frames s' ! r = extended yt pt tau ms (frames s ! a)"
  using assms(2) by (auto simp: compute_extend [OF assms(1)] Let_def nth_append split: option.splits)

lemma compute_fresh_ok:
  assumes "folds_error yt pt tau ms [0..<10] = None"
  shows "\<exists>s1 a1. compute_metrics_for_specified_tau s yt pt None tau ms = (s1, Inr a1)"
  using assms by (simp add: compute_fresh Let_def)

lemma compute_extend_ok:
  assumes "a < length (frames s)" and "folds_error yt pt tau ms [0..<10] = None"
  shows "\<exists>s' r. compute_metrics_for_specified_tau s yt pt (Some a) tau ms = (s', Inr r)"
  using assms(2) by (simp add: compute_extend [OF assms(1)] Let_def)

lemma frame_column_fresh [simp]:
  "frame_column \<lparr>f_index = idx, f_columns = []\<rparr> k = None"
  by (simp add: frame_column_def)

text \<open>
  Claim C7. Starting from no table, when aggregating \<open>tau1\<close> and then extending the result
  with \<open>tau2\<close> returns, aggregating \<open>tau2\<close> first and then \<open>tau1\<close> returns as well, and the
  two final tables have the same rows and, under every column key, the same cells (only
  the order of the columns can differ). The extension leaves every column of the first
  table with the cells it had.
\<close>

theorem extension_order_irrelevant:
  assumes "compute_metrics_for_specified_tau s yt pt None tau1 ms = (s1, Inr a1)"
      and "compute_metrics_for_specified_tau s1 yt pt (Some a1) tau2 ms = (s2, Inr a2)"
  shows "\<exists>t1 b1 t2 b2.
           compute_metrics_for_specified_tau s yt pt None tau2 ms = (t1, Inr b1)
         \<and> compute_metrics_for_specified_tau t1 yt pt (Some b1) tau1 ms = (t2, Inr b2)
         \<and> f_index (frames s2 ! a2) = f_index (frames t2 ! b2)
         \<and> (\<forall>k. frame_column (frames s2 ! a2) k = frame_column (frames t2 ! b2) k)
         \<and> (\<forall>k. frame_column (frames s1 ! a1) k \<noteq> None
                  \<longrightarrow> frame_column (frames s2 ! a2) k = frame_column (frames s1 ! a1) k)"
proof -
  define f0 where "f0 = \<lparr>f_index = map metric_name ms, f_columns = []\<rparr>"
  note r1 = compute_fresh_returns [OF assms(1), folded f0_def]
  note r2 = compute_extend_returns [OF r1(2) assms(2)]
  have ok1: "folds_error yt pt tau1 ms [0..<10] = None" by (rule r1(1))
  have ok2: "folds_error yt pt tau2 ms [0..<10] = None" by (rule r2(1))
  obtain t1 b1 where c1: "compute_metrics_for_specified_tau s yt pt None tau2 ms = (t1, Inr b1)"
    using compute_fresh_ok [OF ok2] by blast
  note q1 = compute_fresh_returns [OF c1, folded f0_def]
  obtain t2 b2 where c2: "compute_metrics_for_specified_tau t1 yt pt (Some b1) tau1 ms = (t2, Inr b2)"
    using compute_extend_ok [OF q1(2) ok1] by blast
  note q2 = compute_extend_returns [OF q1(2) c2]
  have A: "frames s2 ! a2 = extended yt pt tau2 ms (extended yt pt tau1 ms f0)"
    by (simp only: r2(2) r1(3))
  have B: "frames t2 ! b2 = extended yt pt tau1 ms (extended yt pt tau2 ms f0)"
    by (simp only: q2(2) q1(3))
  have idx: "f_index (frames s2 ! a2) = f_index (frames t2 ! b2)"
    by (simp add: A B)
  have cols: "frame_column (frames s2 ! a2) k = frame_column (frames t2 ! b2) k" for k
    by (simp add: A B extended_column [OF ok1] extended_column [OF ok2])
  have keep: "frame_column (frames s2 ! a2) k = frame_column (frames s1 ! a1) k"
    if "frame_column (frames s1 ! a1) k \<noteq> None" for k
    using that by (auto simp: A r1(3) extended_column [OF ok1] extended_column [OF ok2] f0_def
        split: if_splits)
  from c1 c2 idx cols keep show ?thesis by blast
qed

theorem extension_order_irrelevant_witness:
  "\<exists>s1 a1 s2 a2 t1 b1 t2 b2.
       compute_metrics_for_specified_tau initial_state ex_observed ex_predictions None (19/20)
         default_metrics = (s1, Inr a1)
     \<and> compute_metrics_for_specified_tau s1 ex_observed ex_predictions (Some a1) (1/2)
         default_metrics = (s2, Inr a2)
     \<and> compute_metrics_for_specified_tau initial_state ex_observed ex_predictions None (1/2)
         default_metrics = (t1, Inr b1)
     \<and> compute_metrics_for_specified_tau t1 ex_observed ex_predictions (Some b1) (19/20)
         default_metrics = (t2, Inr b2)
     \<and> (\<forall>k. frame_column (frames s2 ! a2) k = frame_column (frames t2 ! b2) k)"
proof -
  obtain s1 a1 where h1: "compute_metrics_for_specified_tau initial_state ex_observed
      ex_predictions None (19/20) default_metrics = (s1, Inr a1)"
    using compute_fresh_ok [OF ex_95_ok] by blast
  obtain s2 a2 where h2: "compute_metrics_for_specified_tau s1 ex_observed ex_predictions
      (Some a1) (1/2) default_metrics = (s2, Inr a2)"
    using compute_extend_ok [OF compute_fresh_returns(2) [OF h1] ex_half_ok] by blast
  from extension_order_irrelevant [OF h1 h2] h1 h2 show ?thesis by blast
qed

lemma compute_result:
  "snd (compute_metrics_for_specified_tau s yt pt df tau ms) =
     (case folds_error yt pt tau ms [0..<10] of
        Some e \<Rightarrow> Inl e
      | None \<Rightarrow> Inr (case df of None \<Rightarrow> Suc (length (frames s)) | Some a \<Rightarrow> length (frames s)))"
proof (cases df)
  case None
  then show ?thesis by (simp add: compute_fresh Let_def split: option.splits)
next
  case (Some a)
  obtain F r where rf: "run_folds tau yt pt tau ms [0..<10] (frames s ! a) = (F, r)"
    by (cases "run_folds tau yt pt tau ms [0..<10] (frames s ! a)")
  have r: "r = folds_error yt pt tau ms [0..<10]"
    using run_folds_error [of tau yt pt tau ms "[0..<10]" "frames s ! a"] rf by simp
  show ?thesis
    using Some rf r
    by (cases "folds_error yt pt tau ms [0..<10]")
       (simp_all add: compute_metrics_for_specified_tau_def new_frame_def Let_def)
qed

lemma metrics_error_Some:
  "metrics_error yt y ms = Some e \<longleftrightarrow>
     e = ValueError \<and> map fst yt \<noteq> map fst y \<and> list_ex compares ms"
  by (auto simp: metrics_error_def)

lemma folds_error_None:
  "folds_error yt pt tau ms cvs = None \<longleftrightarrow>
     (\<forall>cv \<in> set cvs. \<exists>y. map_of pt (tau, cv) = Some y \<and> metrics_error yt y ms = None)"
  by (induction cvs) (auto split: option.splits)

lemma folds_error_Some:
  assumes "folds_error yt pt tau ms cvs = Some e"
  shows "e = ValueError \<or> (\<exists>c \<in> set cvs. e = KeyError (tau, c) \<and> map_of pt (tau, c) = None)"
  using assms
  by (induction cvs) (auto split: option.splits simp: metrics_error_Some)

lemma fold_ok_iff:
  "fold_ok yt pt tau ms cv \<longleftrightarrow>
     (\<exists>y. map_of pt (tau, cv) = Some y \<and> metrics_error yt y ms = None)"
  by (auto simp: fold_ok_def metrics_error_def split: option.splits)

lemma folds_error_skip:
  assumes "\<forall>c \<in> set pre. fold_ok yt pt tau ms c"
  shows "folds_error yt pt tau ms (pre @ rest) = folds_error yt pt tau ms rest"
  using assms by (induction pre) (auto simp: fold_ok_iff)

lemma upt_split: "cv < n \<Longrightarrow> [0..<n] = [0..<cv] @ cv # [Suc cv..<n]"
  by (metis less_imp_le_nat upt_add_eq_append upt_conv_Cons le_add_diff_inverse add_0 zero_le)

lemma folds_error_first:
  assumes "cv < 10" and "\<forall>c<cv. fold_ok yt pt tau ms c"
  shows "folds_error yt pt tau ms [0..<10] = folds_error yt pt tau ms (cv # [Suc cv..<10])"
proof -
  have "\<forall>c \<in> set [0..<cv]. fold_ok yt pt tau ms c" using assms(2) by simp
  from folds_error_skip [OF this] show ?thesis
    by (simp only: upt_split [OF assms(1)])
qed

lemma folds_error_all_ok:
  "folds_error yt pt tau ms [0..<10] = None \<longleftrightarrow> (\<forall>c<10. fold_ok yt pt tau ms c)"
  by (auto simp: folds_error_None fold_ok_iff)

text \<open>
  Claim C5, as the code has it. The code defines no exception of its own: a missing
  \<open>(tau, fold)\<close> surfaces as the \<open>KeyError\<close> of the column lookup (the specification's
  \<open>MissingFoldData\<close>), a misaligned index as the \<open>ValueError\<close> of a Series comparison (its
  \<open>ShapeMismatch\<close>), and only \<open>coverage\<close> and \<open>exceeding\<close> compare. The first fold in
  \<open>0..9\<close> that is missing, or whose series is not labelled as the observations are while
  the metric list holds \<open>coverage\<close> or \<open>exceeding\<close>, decides the outcome: the call fails
  with \<open>KeyError (tau, fold)\<close> when that fold is missing and with \<open>ValueError\<close> when it is
  misaligned. So the call fails whenever a fold is missing and whenever a series is
  misaligned and a comparing metric is in the list; it fails with no other exception and
  in no other case, and it returns exactly when there is no such fold.
\<close>

theorem aggregator_failures:
  "(cv < 10 \<and> (\<forall>c<cv. fold_ok yt pt tau ms c) \<and> map_of pt (tau, cv) = None \<longrightarrow>
      snd (compute_metrics_for_specified_tau s yt pt df tau ms) = Inl (KeyError (tau, cv)))
   \<and> (cv < 10 \<and> (\<forall>c<cv. fold_ok yt pt tau ms c) \<and> map_of pt (tau, cv) = Some y
        \<and> map fst yt \<noteq> map fst y \<and> list_ex compares ms \<longrightarrow>
      snd (compute_metrics_for_specified_tau s yt pt df tau ms) = Inl ValueError)
   \<and> (cv < 10 \<and> map_of pt (tau, cv) = None \<longrightarrow>
      (\<exists>e. snd (compute_metrics_for_specified_tau s yt pt df tau ms) = Inl e))
   \<and> (cv < 10 \<and> map_of pt (tau, cv) = Some y \<and> map fst yt \<noteq> map fst y \<and> list_ex compares ms
        \<longrightarrow>
      (\<exists>e. snd (compute_metrics_for_specified_tau s yt pt df tau ms) = Inl e))
   \<and> (\<forall>e. snd (compute_metrics_for_specified_tau s yt pt df tau ms) = Inl e \<longleftrightarrow>
        (\<exists>c<10. (\<forall>b<c. fold_ok yt pt tau ms b)
           \<and> (map_of pt (tau, c) = None \<and> e = KeyError (tau, c)
               \<or> (\<exists>z. map_of pt (tau, c) = Some z \<and> map fst yt \<noteq> map fst z
                       \<and> list_ex compares ms \<and> e = ValueError))))
   \<and> ((\<exists>a. snd (compute_metrics_for_specified_tau s yt pt df tau ms) = Inr a) \<longleftrightarrow>
        (\<forall>c<10. fold_ok yt pt tau ms c))"
proof -
  let ?res = "snd (compute_metrics_for_specified_tau s yt pt df tau ms)"
  let ?fe = "folds_error yt pt tau ms [0..<10]"
  have res_Inl: "?res = Inl e \<longleftrightarrow> ?fe = Some e" for e
    by (simp add: compute_result split: option.splits)
  have res_Inr: "(\<exists>a. ?res = Inr a) \<longleftrightarrow> ?fe = None"
    by (simp add: compute_result split: option.splits)
  have key: "?fe = Some (KeyError (tau, c))"
    if "c < 10" "\<forall>b<c. fold_ok yt pt tau ms b" "map_of pt (tau, c) = None" for c
    using that(3) by (simp add: folds_error_first [OF that(1,2)])
  have val: "?fe = Some ValueError"
    if "c < 10" "\<forall>b<c. fold_ok yt pt tau ms b" "map_of pt (tau, c) = Some z"
      "map fst yt \<noteq> map fst z" "list_ex compares ms" for c z
    using that(3,4,5) by (simp add: folds_error_first [OF that(1,2)] metrics_error_def)
  have bad: "\<exists>e. ?fe = Some e" if "c < 10" "\<not> fold_ok yt pt tau ms c" for c
  proof -
    have "?fe \<noteq> None" using that by (auto simp: folds_error_all_ok)
    then show ?thesis by auto
  qed
  have first: "\<exists>c<10. (\<forall>b<c. fold_ok yt pt tau ms b)
           \<and> (map_of pt (tau, c) = None \<and> e = KeyError (tau, c)
               \<or> (\<exists>z. map_of pt (tau, c) = Some z \<and> map fst yt \<noteq> map fst z
                       \<and> list_ex compares ms \<and> e = ValueError))"
    if e: "?fe = Some e" for e
  proof -
    from e have "\<exists>c. c < 10 \<and> \<not> fold_ok yt pt tau ms c"
      using folds_error_all_ok [of yt pt tau ms] by auto
    then obtain c where c: "c < 10" "\<not> fold_ok yt pt tau ms c"
      and least: "\<forall>b<c. \<not> (b < 10 \<and> \<not> fold_ok yt pt tau ms b)"
      using exists_least_iff [of "\<lambda>c. c < 10 \<and> \<not> fold_ok yt pt tau ms c"] by auto
    have before: "\<forall>b<c. fold_ok yt pt tau ms b" using least c(1) by auto
    show ?thesis
    proof (cases "map_of pt (tau, c)")
      case None
      from key [OF c(1) before None] e have "e = KeyError (tau, c)" by simp
      with c(1) before None show ?thesis by blast
    next
      case (Some z)
      with c(2) have m: "map fst yt \<noteq> map fst z" "list_ex compares ms"
        by (auto simp: fold_ok_def)
      from val [OF c(1) before Some m] e have "e = ValueError" by simp
      with c(1) before Some m show ?thesis by blast
    qed
  qed
  have c1: "cv < 10 \<and> (\<forall>c<cv. fold_ok yt pt tau ms c) \<and> map_of pt (tau, cv) = None \<longrightarrow>
      ?res = Inl (KeyError (tau, cv))"
    using key [of cv] by (simp add: res_Inl)
  have c2: "cv < 10 \<and> (\<forall>c<cv. fold_ok yt pt tau ms c) \<and> map_of pt (tau, cv) = Some y
        \<and> map fst yt \<noteq> map fst y \<and> list_ex compares ms \<longrightarrow> ?res = Inl ValueError"
    using val [of cv y] by (simp add: res_Inl)
  have c3: "cv < 10 \<and> map_of pt (tau, cv) = None \<longrightarrow> (\<exists>e. ?res = Inl e)"
    using bad [of cv] by (auto simp: res_Inl fold_ok_def)
  have c4: "cv < 10 \<and> map_of pt (tau, cv) = Some y \<and> map fst yt \<noteq> map fst y \<and> list_ex compares ms
        \<longrightarrow> (\<exists>e. ?res = Inl e)"
    using bad [of cv] by (auto simp: res_Inl fold_ok_def)
  have c5: "\<forall>e. ?res = Inl e \<longleftrightarrow>
        (\<exists>c<10. (\<forall>b<c. fold_ok yt pt tau ms b)
           \<and> (map_of pt (tau, c) = None \<and> e = KeyError (tau, c)
               \<or> (\<exists>z. map_of pt (tau, c) = Some z \<and> map fst yt \<noteq> map fst z
                       \<and> list_ex compares ms \<and> e = ValueError)))"
  proof (intro allI iffI)
    fix e assume "?res = Inl e"
    then show "\<exists>c<10. (\<forall>b<c. fold_ok yt pt tau ms b)
           \<and> (map_of pt (tau, c) = None \<and> e = KeyError (tau, c)
               \<or> (\<exists>z. map_of pt (tau, c) = Some z \<and> map fst yt \<noteq> map fst z
                       \<and> list_ex compares ms \<and> e = ValueError))"
      using first [of e] by (simp add: res_Inl)
  next
    fix e assume "\<exists>c<10. (\<forall>b<c. fold_ok yt pt tau ms b)
           \<and> (map_of pt (tau, c) = None \<and> e = KeyError (tau, c)
               \<or> (\<exists>z. map_of pt (tau, c) = Some z \<and> map fst yt \<noteq> map fst z
                       \<and> list_ex compares ms \<and> e = ValueError))"
    then show "?res = Inl e" using key val by (auto simp: res_Inl)
  qed
  have c6: "(\<exists>a. ?res = Inr a) \<longleftrightarrow> (\<forall>c<10. fold_ok yt pt tau ms c)"
    by (simp only: res_Inr folds_error_all_ok)
  from c1 c2 c3 c4 c5 c6 show ?thesis by (intro conjI)
qed

lemma ex_missing_lookup:
  "map_of ex_missing (1/2, 9) = None"
  by (simp add: ex_missing_def map_of_eq_None_iff image_iff)

lemma ex_lookup_0:
  "map_of ex_predictions (1/2, 0) = Some [(0, 12), (3600000000000, 12)]"
  by (simp add: ex_predictions_def upt10)

lemma ex_missing_before:
  "\<forall>c<9. fold_ok ex_observed ex_missing (1/2) default_metrics c"
proof -
  have "folds_error ex_observed ex_missing (1/2) default_metrics [0..<9] = None"
    by (simp add: ex_observed_def ex_missing_def metrics_error_def upt9)
  then show ?thesis by (auto simp: folds_error_None fold_ok_iff)
qed

lemma ex_all_ok: "\<forall>c<10. fold_ok ex_observed ex_predictions (1/2) default_metrics c"
  using ex_half_ok [of default_metrics] by (simp add: folds_error_all_ok)

theorem aggregator_failures_witness:
  "snd (compute_metrics_for_specified_tau initial_state ex_observed ex_missing None (1/2)
          default_metrics) = Inl (KeyError (1/2, 9))
   \<and> snd (compute_metrics_for_specified_tau initial_state ex_shifted ex_predictions None (1/2)
          default_metrics) = Inl ValueError
   \<and> (\<exists>a. snd (compute_metrics_for_specified_tau initial_state ex_observed ex_predictions None
                 (1/2) default_metrics) = Inr a)"
proof -
  have h1: "(9::nat) < 10 \<and> (\<forall>c<9. fold_ok ex_observed ex_missing (1/2) default_metrics c)
      \<and> map_of ex_missing (1/2, 9) = None"
    by (simp add: ex_missing_lookup ex_missing_before)
  have h2: "(0::nat) < 10 \<and> (\<forall>c<0. fold_ok ex_shifted ex_predictions (1/2) default_metrics c)
      \<and> map_of ex_predictions (1/2, 0) = Some [(0, 12), (3600000000000, 12)]
      \<and> map fst ex_shifted \<noteq> map fst [(0::int, 12::real), (3600000000000, 12)]
      \<and> list_ex compares default_metrics"
    by (simp add: ex_lookup_0 ex_shifted_def default_metrics_def compares_def)
  from aggregator_failures [where cv = 9 and yt = ex_observed and pt = ex_missing and tau = "1/2"
      and ms = default_metrics and s = initial_state and df = None]
    h1
  have w1: "snd (compute_metrics_for_specified_tau initial_state ex_observed ex_missing None
      (1/2) default_metrics) = Inl (KeyError (1/2, 9))"
    by blast
  from aggregator_failures [where cv = 0 and yt = ex_shifted and pt = ex_predictions and tau = "1/2"
      and ms = default_metrics and s = initial_state and df = None
      and y = "[(0, 12), (3600000000000, 12)]"] h2
  have w2: "snd (compute_metrics_for_specified_tau initial_state ex_shifted ex_predictions
      None (1/2) default_metrics) = Inl ValueError"
    by blast
  from aggregator_failures [where yt = ex_observed and pt = ex_predictions and tau = "1/2"
      and ms = default_metrics and s = initial_state and df = None] ex_all_ok
  have w3: "\<exists>a. snd (compute_metrics_for_specified_tau initial_state ex_observed ex_predictions
      None (1/2) default_metrics) = Inr a"
    by blast
  from w1 w2 w3 show ?thesis by (intro conjI)
qed

text \<open>
  The claim as the specification states it fails: with the metric list
  \<open>[requirement, closeness, max_exceeding, reserve_ramp_rate, pinball_loss]\<close> and
  observations whose index differs from that of every selected series, the call returns
  a table.
\<close>

theorem misaligned_accepted_counterexample:
  "list_all (\<lambda>cv. map_option (map fst) (map_of ex_predictions (1/2, cv))
                    = Some [0, 3600000000000]) [0..<10]
   \<and> map fst ex_shifted = [1800000000000, 5400000000000]
   \<and> snd (compute_metrics_for_specified_tau initial_state ex_shifted ex_predictions None (1/2)
            [Requirement, Closeness, Max_exceeding, Reserve_ramp_rate, Pinball_loss])
       = Inr 1"
proof -
  have "folds_error ex_shifted ex_predictions (1/2)
          [Requirement, Closeness, Max_exceeding, Reserve_ramp_rate, Pinball_loss] [0..<10] = None"
    by (simp add: ex_predictions_def metrics_error_def compares_def upt10)
  then show ?thesis
    by (simp add: compute_result initial_state_def ex_shifted_def)
       (simp add: ex_predictions_def upt10)
qed

section \<open>Properties of the Crossing Detector\<close>















lemma ex_tau_values: "tau_values ex_predictions = [1/2, 19/20]"
  by (simp add: tau_values_def ex_predictions_def upt10)




section \<open>Properties of the Multi-Quantile Aggregator\<close>

lemma update_fresh: "k \<notin> fst ` set al \<Longrightarrow> AList.update k v al = al @ [(k, v)]"
  by (induction al) auto

lemma map_entry_last:
  "k \<notin> fst ` set al \<Longrightarrow> AList.map_entry k g (al @ [(k, v)]) = al @ [(k, g v)]"
  by (induction al) auto

lemma run_folds_columns_fresh:
  assumes "folds_error yt pt tau ms cvs = None" and "distinct cvs"
      and "\<forall>cv \<in> set cvs. (tau, cv) \<notin> fst ` set (f_columns f)"
  shows "f_columns (fst (run_folds d yt pt tau ms cvs f)) =
     f_columns f @ map (\<lambda>cv. ((tau, cv), new_column d yt pt ms (f_index f) (tau, cv))) cvs"
  using assms
proof (induction cvs arbitrary: f)
  case Nil
  then show ?case by simp
next
  case (Cons cv cvs)
  from Cons.prems(1) obtain yp where yp: "map_of pt (tau, cv) = Some yp"
    by (cases "map_of pt (tau, cv)") auto
  with Cons.prems(1) have me: "metrics_error yt yp ms = None"
    and fe: "folds_error yt pt tau ms cvs = None"
    by (auto split: option.splits)
  define f1 where "f1 = set_column_blank (tau, cv) f"
  define f2 where "f2 = fst (run_metrics d (tau, cv) yt yp ms f1)"
  have rm: "run_metrics d (tau, cv) yt yp ms f1 = (f2, None)"
    using run_metrics_error [of d "(tau, cv)" yt yp ms f1] me
    by (simp add: f2_def prod_eq_iff)
  have step: "run_folds d yt pt tau ms (cv # cvs) f = run_folds d yt pt tau ms cvs f2"
    using yp rm by (simp add: pt_get_def f1_def)
  have fresh: "(tau, cv) \<notin> fst ` set (f_columns f)" using Cons.prems(3) by simp
  have idx2: "f_index f2 = f_index f"
    by (simp add: f2_def f1_def set_column_blank_def)
  have col2: "f_columns f2 =
      f_columns f @ [((tau, cv), new_column d yt pt ms (f_index f) (tau, cv))]"
    using yp fresh
    by (simp add: f2_def run_metrics_frame f1_def set_column_blank_def update_fresh
        map_entry_last new_column_def)
  have fresh2: "\<forall>c \<in> set cvs. (tau, c) \<notin> fst ` set (f_columns f2)"
    using Cons.prems(2,3) by (auto simp: col2)
  have d: "distinct cvs" using Cons.prems(2) by simp
  show ?case
    unfolding step Cons.IH [OF fe d fresh2] idx2 col2 by simp
qed

lemma extended_columns_fresh:
  assumes "folds_error yt pt tau ms [0..<10] = None"
      and "tau \<notin> (\<lambda>c. fst (fst c)) ` set (f_columns f)"
  shows "f_columns (extended yt pt tau ms f) =
     f_columns f @ map (\<lambda>cv. ((tau, cv), new_column tau yt pt ms (f_index f) (tau, cv))) [0..<10]"
proof -
  have "\<forall>cv \<in> set [0..<10]. (tau, cv) \<notin> fst ` set (f_columns f)"
    using assms(2) by force
  then show ?thesis
    unfolding extended_def by (intro run_folds_columns_fresh [OF assms(1)]) simp_all
qed

lemma compute_extend_returns_len:
  assumes "a < length (frames s)"
      and "compute_metrics_for_specified_tau s yt pt (Some a) tau ms = (s', Inr r)"
  shows "r < length (frames s')"
  using assms(2) by (auto simp: compute_extend [OF assms(1)] Let_def split: option.splits)

lemma all_taus_loop_Some:
  assumes "a < length (frames s)"
      and "all_taus_loop s yt pt (Some a) taus = (s', Inr r)"
  shows "\<exists>b. r = Some b \<and> b < length (frames s')
           \<and> frames s' ! b = foldl (\<lambda>f tau. extended yt pt tau default_metrics f) (frames s ! a) taus
           \<and> (\<forall>tau \<in> set taus. folds_error yt pt tau default_metrics [0..<10] = None)"
  using assms
proof (induction taus arbitrary: s a)
  case Nil
  then show ?case by auto
next
  case (Cons tau taus)
  obtain s1 r1 where c: "compute_metrics_for_specified_tau s yt pt (Some a) tau default_metrics = (s1, r1)"
    by (cases "compute_metrics_for_specified_tau s yt pt (Some a) tau default_metrics")
  with Cons.prems(2) obtain a1 where r1: "r1 = Inr a1"
    by (cases r1) auto
  note ret = compute_extend_returns [OF Cons.prems(1) c [unfolded r1]]
  have len: "a1 < length (frames s1)"
    by (rule compute_extend_returns_len [OF Cons.prems(1) c [unfolded r1]])
  have rest: "all_taus_loop s1 yt pt (Some a1) taus = (s', Inr r)"
    using Cons.prems(2) c r1 by simp
  from Cons.IH [OF len rest] ret show ?case by auto
qed

lemma all_taus_loop_None:
  assumes "all_taus_loop s yt pt None (tau # taus) = (s', Inr r)"
  shows "\<exists>b. r = Some b \<and> b < length (frames s')
           \<and> frames s' ! b = foldl (\<lambda>f tau. extended yt pt tau default_metrics f)
                \<lparr>f_index = map metric_name default_metrics, f_columns = []\<rparr> (tau # taus)
           \<and> (\<forall>t \<in> set (tau # taus). folds_error yt pt t default_metrics [0..<10] = None)"
proof -
  obtain s1 r1 where c: "compute_metrics_for_specified_tau s yt pt None tau default_metrics = (s1, r1)"
    by (cases "compute_metrics_for_specified_tau s yt pt None tau default_metrics")
  with assms obtain a1 where r1: "r1 = Inr a1"
    by (cases r1) auto
  note ret = compute_fresh_returns [OF c [unfolded r1]]
  have rest: "all_taus_loop s1 yt pt (Some a1) taus = (s', Inr r)"
    using assms c r1 by simp
  from all_taus_loop_Some [OF ret(2) rest] ret show ?thesis by auto
qed

lemma built_frame:
  assumes "distinct taus"
      and "\<forall>tau \<in> set taus. folds_error yt pt tau ms [0..<10] = None"
      and "\<forall>tau \<in> set taus. tau \<notin> (\<lambda>c. fst (fst c)) ` set (f_columns f)"
  shows "f_index (foldl (\<lambda>f tau. extended yt pt tau ms f) f taus) = f_index f
       \<and> f_columns (foldl (\<lambda>f tau. extended yt pt tau ms f) f taus)
           = f_columns f @ concat (map (tau_block yt pt ms (f_index f)) taus)"
  using assms
proof (induction taus arbitrary: f)
  case Nil
  then show ?case by simp
next
  case (Cons tau taus)
  define f1 where "f1 = extended yt pt tau ms f"
  have ok: "folds_error yt pt tau ms [0..<10] = None" using Cons.prems(2) by simp
  have fresh: "tau \<notin> (\<lambda>c. fst (fst c)) ` set (f_columns f)" using Cons.prems(3) by simp
  have idx1: "f_index f1 = f_index f" by (simp add: f1_def)
  have col1: "f_columns f1 = f_columns f @ tau_block yt pt ms (f_index f) tau"
    unfolding f1_def tau_block_def by (rule extended_columns_fresh [OF ok fresh])
  have fresh1: "\<forall>t \<in> set taus. t \<notin> (\<lambda>c. fst (fst c)) ` set (f_columns f1)"
    using Cons.prems(1,3) by (auto simp: col1 tau_block_def)
  have d: "distinct taus" and oks: "\<forall>t \<in> set taus. folds_error yt pt t ms [0..<10] = None"
    using Cons.prems(1,2) by simp_all
  from Cons.IH [OF d oks fresh1] show ?case
    by (simp add: f1_def [symmetric] idx1 col1)
qed

lemma inj_metric_name: "inj metric_name"
proof (rule injI)
  fix x y assume "metric_name x = metric_name y"
  then show "x = y" by (cases x; cases y) simp_all
qed

lemma map2_map2:
  "map2 f xs (map2 g xs ys) = map2 (\<lambda>x y. f x (g x y)) xs ys"
  by (induction xs arbitrary: ys) (auto split: list.splits simp: zip_Cons1)

lemma fill_cells_all:
  assumes "\<forall>m \<in> set ms. \<exists>v. call_metric d m yt yp = Inr v" and "length cs = length idx"
  shows "fill_cells d yt yp ms idx cs =
     map2 (\<lambda>l old. if l \<in> metric_name ` set ms
                     then Num (metric_val d (inv metric_name l) yt yp) else old) idx cs"
  using assms
proof (induction ms arbitrary: cs)
  case Nil
  have "map2 (\<lambda>l old. old) idx cs = cs"
    using Nil.prems(2) [symmetric] by (induction idx cs rule: list_induct2) auto
  then show ?case by simp
next
  case (Cons m ms)
  then obtain v where v: "call_metric d m yt yp = Inr v" by auto
  have mv: "metric_val d m yt yp = v" by (simp add: metric_val_def v)
  have inv: "inv metric_name (metric_name m) = m" by (simp add: inj_metric_name)
  define cs' where "cs' = map2 (\<lambda>label old. if label = metric_name m then Num v else old) idx cs"
  have len: "length cs' = length idx" using Cons.prems(2) by (simp add: cs'_def)
  have all: "\<forall>m \<in> set ms. \<exists>v. call_metric d m yt yp = Inr v" using Cons.prems(1) by simp
  have "fill_cells d yt yp (m # ms) idx cs = fill_cells d yt yp ms idx cs'"
    by (simp add: v cs'_def)
  also have "\<dots> = map2 (\<lambda>l old. if l \<in> metric_name ` set ms
                     then Num (metric_val d (inv metric_name l) yt yp) else old) idx cs'"
    by (rule Cons.IH [OF all len])
  also have "\<dots> = map2 (\<lambda>l old. if l \<in> metric_name ` set ms
                     then Num (metric_val d (inv metric_name l) yt yp)
                     else if l = metric_name m then Num v else old) idx cs"
    unfolding cs'_def by (rule map2_map2)
  also have "\<dots> = map2 (\<lambda>l old. if l \<in> metric_name ` set (m # ms)
                     then Num (metric_val d (inv metric_name l) yt yp) else old) idx cs"
    by (rule arg_cong [where f = "\<lambda>f. map f (zip idx cs)"]) (auto simp: fun_eq_iff inv mv)
  finally show ?case .
qed

lemma map2_labelled:
  assumes "\<forall>x \<in> set xs. f x \<in> S"
  shows "map2 (\<lambda>l old. if l \<in> S then G l else old) (map f xs) (replicate (length xs) b)
       = map (\<lambda>x. G (f x)) xs"
  using assms by (induction xs) auto

lemma new_column_names:
  assumes "map_of pt k = Some yp" and "metrics_error yt yp ms = None"
  shows "new_column d yt pt ms (map metric_name ms) k = map (\<lambda>m. Num (metric_val d m yt yp)) ms"
proof -
  have all: "\<forall>m \<in> set ms. \<exists>v. call_metric d m yt yp = Inr v"
  proof
    fix m assume m: "m \<in> set ms"
    show "\<exists>v. call_metric d m yt yp = Inr v"
    proof (cases "call_metric d m yt yp")
      case (Inl e)
      then have "compares m \<and> map fst yt \<noteq> map fst yp" by (simp add: call_metric_error)
      then have "metrics_error yt yp ms = Some ValueError"
        using m by (auto simp: metrics_error_def list_ex_iff)
      then show ?thesis using assms(2) by simp
    next
      case (Inr v)
      then show ?thesis by simp
    qed
  qed
  have inv: "inv metric_name (metric_name m) = m" for m by (simp add: inj_metric_name)
  have "new_column d yt pt ms (map metric_name ms) k
      = map2 (\<lambda>l old. if l \<in> metric_name ` set ms
                     then Num (metric_val d (inv metric_name l) yt yp) else old)
          (map metric_name ms) (replicate (length ms) Blank)"
    using assms(1) by (simp add: new_column_def fill_cells_all [OF all])
  also have "\<dots> = map (\<lambda>m. Num (metric_val d (inv metric_name (metric_name m)) yt yp)) ms"
    by (rule map2_labelled) simp
  also have "\<dots> = map (\<lambda>m. Num (metric_val d m yt yp)) ms"
    by (simp add: inv)
  finally show ?thesis .
qed

lemma remdups_replicate_append:
  "x \<notin> set ys \<Longrightarrow> remdups (replicate (Suc n) x @ ys) = x # remdups ys"
  by (induction n) auto

lemma remdups_blocks:
  assumes "distinct ts" and "\<forall>t \<in> set ts. B t \<noteq> [] \<and> set (B t) \<subseteq> {t}"
  shows "remdups (concat (map B ts)) = ts"
  using assms
proof (induction ts)
  case Nil
  then show ?case by simp
next
  case (Cons t ts)
  then obtain n where n: "B t = replicate (Suc n) t"
    by (metis Cons.prems(2) list.set_intros(1) replicate_eqI subset_singletonD
        length_0_conv not0_implies_Suc singletonD subsetD)
  have "t \<notin> set (concat (map B ts))" using Cons.prems by auto
  then show ?case using Cons n by (simp add: remdups_replicate_append del: replicate_Suc)
qed

lemma first_seen_blocks:
  assumes "distinct ts" and "\<forall>t \<in> set ts. B t \<noteq> [] \<and> set (B t) \<subseteq> {t}"
  shows "first_seen (concat (map B ts)) = ts"
proof -
  have "rev (concat (map B ts)) = concat (map (\<lambda>t. rev (B t)) (rev ts))"
    by (simp add: rev_concat rev_map comp_def)
  moreover have "remdups (concat (map (\<lambda>t. rev (B t)) (rev ts))) = rev ts"
    by (rule remdups_blocks) (use assms in auto)
  ultimately show ?thesis by (simp add: first_seen_def)
qed

lemma filter_blocks:
  assumes "distinct ts" and "t \<in> set ts" and "\<forall>u \<in> set ts. \<forall>c \<in> set (B u). key c = u"
  shows "filter (\<lambda>c. key c = t) (concat (map B ts)) = B t"
  using assms
proof (induction ts)
  case Nil
  then show ?case by simp
next
  case (Cons u ts)
  show ?case
  proof (cases "u = t")
    case True
    have "filter (\<lambda>c. key c = t) (B t) = B t" using Cons.prems(3) True by (simp add: filter_id_conv)
    moreover have "filter (\<lambda>c. key c = t) (concat (map B ts)) = []"
      using Cons.prems(1,3) True by (auto simp: filter_empty_conv)
    ultimately show ?thesis using True by simp
  next
    case False
    have "filter (\<lambda>c. key c = t) (B u) = []" using Cons.prems(3) False by (auto simp: filter_empty_conv)
    then show ?thesis using Cons False by simp
  qed
qed

lemma distinct_tau_values [simp]: "distinct (tau_values pt)"
  by (simp add: tau_values_def)

lemma tau_block_values:
  assumes "folds_error yt pt tau ms [0..<10] = None"
  shows "tau_block yt pt ms (map metric_name ms) tau
       = map (\<lambda>cv. ((tau, cv), map (\<lambda>m. Num (fold_val yt pt tau m cv)) ms)) [0..<10]"
proof -
  have "new_column tau yt pt ms (map metric_name ms) (tau, cv)
      = map (\<lambda>m. Num (fold_val yt pt tau m cv)) ms" if "cv < 10" for cv
  proof -
    have "cv \<in> set [0..<10]" using that by simp
    with assms obtain yp where yp: "map_of pt (tau, cv) = Some yp"
      and me: "metrics_error yt yp ms = None"
      unfolding folds_error_None by blast
    show ?thesis by (simp add: new_column_names [OF yp me] fold_val_def yp)
  qed
  then show ?thesis by (simp add: tau_block_def)
qed

lemma loop_table:
  assumes "all_taus_loop s yt pt None taus = (s', Inr r)" and "taus \<noteq> []" and "distinct taus"
  shows "\<exists>a. r = Some a
     \<and> f_index (frames s' ! a) = map metric_name default_metrics
     \<and> f_columns (frames s' ! a)
         = concat (map (\<lambda>t. map (\<lambda>cv. ((t, cv), map (\<lambda>m. Num (fold_val yt pt t m cv))
                                                     default_metrics)) [0..<10]) taus)"
proof -
  from assms(2) obtain tau ts where taus: "taus = tau # ts" by (cases taus) auto
  define f0 where "f0 = \<lparr>f_index = map metric_name default_metrics, f_columns = []\<rparr>"
  from all_taus_loop_None [OF assms(1) [unfolded taus]]
  obtain a where a: "r = Some a"
    and fr: "frames s' ! a = foldl (\<lambda>f tau. extended yt pt tau default_metrics f) f0 taus"
    and ok: "\<forall>t \<in> set taus. folds_error yt pt t default_metrics [0..<10] = None"
    unfolding f0_def taus by blast
  have fresh: "\<forall>t \<in> set taus. t \<notin> (\<lambda>c. fst (fst c)) ` set (f_columns f0)"
    by (simp add: f0_def)
  note b = built_frame [OF assms(3) ok fresh]
  have blocks: "map (tau_block yt pt default_metrics (f_index f0)) taus
      = map (\<lambda>t. map (\<lambda>cv. ((t, cv), map (\<lambda>m. Num (fold_val yt pt t m cv))
                                                     default_metrics)) [0..<10]) taus"
    using ok by (simp add: f0_def tau_block_values)
  show ?thesis
    using a b by (simp add: fr blocks) (simp add: f0_def)
qed

lemma map_index_nth: "map (\<lambda>i. h (xs ! i)) [0..<length xs] = map h xs"
proof -
  have "map (\<lambda>i. h (xs ! i)) [0..<length xs] = map h (map (\<lambda>i. xs ! i) [0..<length xs])"
    by simp
  then show ?thesis by (simp only: map_nth)
qed

lemma mean_level0_table:
  fixes V :: "real \<Rightarrow> metric \<Rightarrow> nat \<Rightarrow> fl"
  assumes idx: "f_index F = map metric_name ms"
      and cols: "f_columns F
         = concat (map (\<lambda>t. map (\<lambda>cv. ((t, cv), map (\<lambda>m. Num (V t m cv)) ms)) [0..<10]) taus)"
      and d: "distinct taus"
  shows "mean_level0 F
       = Inr \<lparr>a_index = map metric_name ms,
              a_columns = map (\<lambda>t. (t, map (\<lambda>m. group_mean (map (V t m) [0..<10])) ms)) taus\<rparr>"
proof -
  define B where "B = (\<lambda>t. map (\<lambda>cv. ((t, cv), map (\<lambda>m. Num (V t m cv)) ms)) [0..<10::nat])"
  have cols': "f_columns F = concat (map B taus)" by (simp add: cols B_def)
  have noblank: "\<not> list_ex (\<lambda>c. Blank \<in> set (snd c)) (f_columns F)"
    by (auto simp: cols' B_def list_ex_iff)
  have keys: "map (\<lambda>c. fst (fst c)) (concat (map B taus))
      = concat (map (\<lambda>t. map (\<lambda>c. fst (fst c)) (B t)) taus)"
    by (simp add: map_concat comp_def)
  have fs: "first_seen (map (\<lambda>c. fst (fst c)) (f_columns F)) = taus"
    unfolding cols' keys
    by (rule first_seen_blocks [OF d]) (auto simp: B_def)
  have grp: "filter (\<lambda>c. fst (fst c) = t) (f_columns F) = B t" if "t \<in> set taus" for t
    unfolding cols'
    by (rule filter_blocks [OF d that]) (auto simp: B_def)
  have row: "map (\<lambda>c. cell_float (snd c ! i)) (B t) = map (V t (ms ! i)) [0..<10]"
    if "i < length ms" for i t
    using that by (simp add: B_def comp_def)
  have rows: "map (\<lambda>i. group_mean (map (\<lambda>c. cell_float (snd c ! i)) (B t))) [0..<length ms]
      = map (\<lambda>m. group_mean (map (V t m) [0..<10])) ms" for t
  proof -
    have "map (\<lambda>i. group_mean (map (\<lambda>c. cell_float (snd c ! i)) (B t))) [0..<length ms]
        = map (\<lambda>i. group_mean (map (V t (ms ! i)) [0..<10])) [0..<length ms]"
      by (rule map_cong) (simp_all add: row)
    also have "\<dots> = map (\<lambda>m. group_mean (map (V t m) [0..<10])) ms"
      by (rule map_index_nth)
    finally show ?thesis .
  qed
  have acols: "map (\<lambda>t. (t, map (\<lambda>i. group_mean
                                        (map (\<lambda>c. cell_float (snd c ! i))
                                           (filter (\<lambda>c. fst (fst c) = t) (f_columns F))))
                                [0..<length (f_index F)])) taus
      = map (\<lambda>t. (t, map (\<lambda>m. group_mean (map (V t m) [0..<10])) ms)) taus"
    by (rule map_cong) (simp_all add: grp idx rows)
  show ?thesis
    unfolding mean_level0_def fs acols using noblank by (simp add: idx)
qed

lemma all_taus_loop_ok:
  assumes "\<forall>t \<in> set taus. folds_error yt pt t default_metrics [0..<10] = None"
  shows "\<exists>s' r. all_taus_loop s yt pt df taus = (s', Inr r)"
  using assms
proof (induction taus arbitrary: s df)
  case Nil
  then show ?case by simp
next
  case (Cons tau taus)
  obtain s1 r1 where c: "compute_metrics_for_specified_tau s yt pt df tau default_metrics = (s1, r1)"
    by (cases "compute_metrics_for_specified_tau s yt pt df tau default_metrics")
  have "folds_error yt pt tau default_metrics [0..<10] = None" using Cons.prems by simp
  then obtain a where r1: "r1 = Inr a"
    using compute_result [of s yt pt df tau default_metrics] c by simp
  from Cons.IH [of s1 "Some a"] Cons.prems show ?case by (simp add: c r1)
qed

lemma all_taus_explicit:
  assumes "all_taus_loop s yt pt None (tau_values pt) = (s', Inr df)" and "tau_values pt \<noteq> []"
  shows "\<exists>a. df = Some a
     \<and> f_index (frames s' ! a) = map metric_name default_metrics
     \<and> f_columns (frames s' ! a)
         = concat (map (\<lambda>t. map (\<lambda>cv. ((t, cv), map (\<lambda>m. Num (fold_val yt pt t m cv))
                                                     default_metrics)) [0..<10]) (tau_values pt))
     \<and> compute_metrics_for_all_taus s yt pt False = (s', Inr (Per_fold a))
     \<and> compute_metrics_for_all_taus s yt pt True
         = (s', Inr (Averaged
              \<lparr>a_index = map metric_name default_metrics,
               a_columns = map (\<lambda>t. (t, map (\<lambda>m. group_mean (map (fold_val yt pt t m) [0..<10]))
                                          default_metrics)) (tau_values pt)\<rparr>))"
proof -
  from loop_table [OF assms(1) assms(2) distinct_tau_values]
  obtain a where a: "df = Some a"
    and idx: "f_index (frames s' ! a) = map metric_name default_metrics"
    and cols: "f_columns (frames s' ! a)
         = concat (map (\<lambda>t. map (\<lambda>cv. ((t, cv), map (\<lambda>m. Num (fold_val yt pt t m cv))
                                                     default_metrics)) [0..<10]) (tau_values pt))"
    by blast
  note m = mean_level0_table [where V = "fold_val yt pt", OF idx cols distinct_tau_values]
  have f: "compute_metrics_for_all_taus s yt pt False = (s', Inr (Per_fold a))"
    by (simp add: compute_metrics_for_all_taus_def assms(1) a)
  have t: "compute_metrics_for_all_taus s yt pt True
         = (s', Inr (Averaged
              \<lparr>a_index = map metric_name default_metrics,
               a_columns = map (\<lambda>t. (t, map (\<lambda>m. group_mean (map (fold_val yt pt t m) [0..<10]))
                                          default_metrics)) (tau_values pt)\<rparr>))"
    by (simp add: compute_metrics_for_all_taus_def assms(1) a m)
  from a idx cols f t show ?thesis by blast
qed

lemma all_taus_averaged:
  assumes "compute_metrics_for_all_taus s yt pt True = (s', Inr r)"
  shows "\<exists>df. all_taus_loop s yt pt None (tau_values pt) = (s', Inr df) \<and> tau_values pt \<noteq> []"
proof -
  obtain s1 r1 where l: "all_taus_loop s yt pt None (tau_values pt) = (s1, r1)"
    by (cases "all_taus_loop s yt pt None (tau_values pt)")
  with assms obtain df where r1: "r1 = Inr df" and s1: "s1 = s'"
    by (cases r1) (auto simp: compute_metrics_for_all_taus_def split: option.splits sum.splits)
  have "tau_values pt \<noteq> []"
  proof
    assume e: "tau_values pt = []"
    then have "df = None" using l r1 by simp
    then show False using assms l r1 by (simp add: compute_metrics_for_all_taus_def)
  qed
  then show ?thesis using l r1 s1 by simp
qed

lemma map_of_labelled:
  assumes "inj f" and "m \<in> set ms"
  shows "map_of (zip (map f ms) (map g ms)) (f m) = Some (g m)"
  using assms(2) by (induction ms) (auto simp: inj_eq [OF assms(1)])

lemma map_of_keyed: "t \<in> set ts \<Longrightarrow> map_of (map (\<lambda>t. (t, g t)) ts) t = Some (g t)"
  by (induction ts) auto

lemma map_of_block:
  "cv \<in> set cvs \<Longrightarrow> map_of (map (\<lambda>cv. ((t, cv), g cv)) cvs) (t, cv) = Some (g cv)"
  by (induction cvs) auto

lemma map_of_blocks:
  assumes "t \<in> set ts" and "cv < 10"
  shows "map_of (concat (map (\<lambda>t. map (\<lambda>cv. ((t, cv), g t cv)) [0..<10]) ts)) (t, cv)
       = Some (g t cv)"
  using assms(1)
proof (induction ts)
  case Nil
  then show ?case by simp
next
  case (Cons u ts)
  show ?case
  proof (cases "u = t")
    case True
    have "map_of (map (\<lambda>cv. ((t, cv), g t cv)) [0..<10]) (t, cv) = Some (g t cv)"
      using assms(2) by (intro map_of_block) simp
    then show ?thesis using True by (simp add: map_add_def)
  next
    case False
    have "map_of (map (\<lambda>cv. ((u, cv), g u cv)) [0..<10]) (t, cv) = None"
      using False by (auto simp: map_of_eq_None_iff)
    then show ?thesis using Cons False by (simp add: map_add_def)
  qed
qed

lemma group_mean_Fin:
  "xs \<noteq> [] \<Longrightarrow> group_mean (map Fin xs) = Fin (sum_list xs / real (length xs))"
proof -
  assume ne: "xs \<noteq> []"
  have "filter (\<lambda>v. v \<noteq> NaN) (map Fin xs) = map Fin xs"
    by (simp add: filter_id_conv)
  then show ?thesis by (simp add: group_mean_def np_mean_Fin [OF ne])
qed

text \<open>
  Claim C6, as the code has it. When the Multi-Quantile Aggregator returns with
  \<open>avg_across_folds\<close> true, the result has the metric names as rows and one column per
  distinct quantile level; with the flag false the same run returns the per-fold table,
  whose columns are all \<open>(tau, fold)\<close> with fold in \<open>0..9\<close>. Each averaged cell is the mean
  of those of the ten per-fold cells that are not NaN (pandas skips NaN; NaN when all
  are): when all ten are finite it is their arithmetic mean.
\<close>

theorem averaging_collapses_folds:
  assumes "compute_metrics_for_all_taus s yt pt True = (s', Inr r)"
  shows "\<exists>T a. r = Averaged T
     \<and> compute_metrics_for_all_taus s yt pt False = (s', Inr (Per_fold a))
     \<and> a_index T = map metric_name default_metrics
     \<and> map fst (a_columns T) = tau_values pt
     \<and> f_index (frames s' ! a) = map metric_name default_metrics
     \<and> map fst (f_columns (frames s' ! a))
         = concat (map (\<lambda>t. map (\<lambda>cv. (t, cv)) [0..<10]) (tau_values pt))
     \<and> (\<forall>m \<in> set default_metrics. \<forall>tau \<in> set (tau_values pt).
          (\<forall>cv<10. frame_cell (frames s' ! a) (metric_name m) (tau, cv)
                      = Some (Num (fold_val yt pt tau m cv)))
          \<and> avg_cell T (metric_name m) tau
              = Some (group_mean (map (fold_val yt pt tau m) [0..<10]))
          \<and> (\<forall>xs. map (fold_val yt pt tau m) [0..<10] = map Fin xs
                \<longrightarrow> avg_cell T (metric_name m) tau = Some (Fin (sum_list xs / 10))))"
proof -
  define ms where "ms = default_metrics"
  define T where "T = \<lparr>a_index = map metric_name ms,
       a_columns = map (\<lambda>t. (t, map (\<lambda>m. group_mean (map (fold_val yt pt t m) [0..<10])) ms))
                     (tau_values pt)\<rparr>"
  from all_taus_averaged [OF assms] obtain df
    where l: "all_taus_loop s yt pt None (tau_values pt) = (s', Inr df)"
      and ne: "tau_values pt \<noteq> []"
    by blast
  from all_taus_explicit [OF l ne] obtain a
    where idx: "f_index (frames s' ! a) = map metric_name ms"
      and cols: "f_columns (frames s' ! a)
         = concat (map (\<lambda>t. map (\<lambda>cv. ((t, cv), map (\<lambda>m. Num (fold_val yt pt t m cv)) ms))
                          [0..<10]) (tau_values pt))"
      and f: "compute_metrics_for_all_taus s yt pt False = (s', Inr (Per_fold a))"
      and t: "compute_metrics_for_all_taus s yt pt True = (s', Inr (Averaged T))"
    unfolding ms_def T_def by blast
  have r: "r = Averaged T" using assms t by simp
  have ai: "a_index T = map metric_name ms" by (simp add: T_def)
  have ac: "map fst (a_columns T) = tau_values pt" by (simp add: T_def comp_def)
  have keys: "map fst (f_columns (frames s' ! a))
         = concat (map (\<lambda>t. map (\<lambda>cv. (t, cv)) [0..<10]) (tau_values pt))"
    by (simp add: cols map_concat comp_def)
  have cell: "frame_cell (frames s' ! a) (metric_name m) (tau, cv)
        = Some (Num (fold_val yt pt tau m cv))"
    if "m \<in> set ms" "tau \<in> set (tau_values pt)" "cv < 10" for m tau cv
  proof -
    have "frame_column (frames s' ! a) (tau, cv) = Some (map (\<lambda>m. Num (fold_val yt pt tau m cv)) ms)"
      unfolding frame_column_def cols by (rule map_of_blocks [OF that(2,3)])
    then show ?thesis
      by (simp add: frame_cell_def idx map_of_labelled [OF inj_metric_name that(1)])
  qed
  have avg: "avg_cell T (metric_name m) tau
        = Some (group_mean (map (fold_val yt pt tau m) [0..<10]))"
    if "m \<in> set ms" "tau \<in> set (tau_values pt)" for m tau
  proof -
    have "map_of (a_columns T) tau
        = Some (map (\<lambda>m. group_mean (map (fold_val yt pt tau m) [0..<10])) ms)"
      unfolding T_def by (simp add: map_of_keyed [OF that(2)])
    then show ?thesis
      by (simp add: avg_cell_def ai map_of_labelled [OF inj_metric_name that(1)])
  qed
  have fin: "avg_cell T (metric_name m) tau = Some (Fin (sum_list xs / 10))"
    if "m \<in> set ms" "tau \<in> set (tau_values pt)"
      "map (fold_val yt pt tau m) [0..<10] = map Fin xs" for m tau xs
  proof -
    have "length (map (fold_val yt pt tau m) [0..<10]) = length (map Fin xs)"
      by (simp only: that(3))
    then have len: "length xs = 10" by simp
    then have "xs \<noteq> []" by auto
    from group_mean_Fin [OF this] show ?thesis
      by (simp add: avg [OF that(1,2)] that(3) len)
  qed
  from r f ai ac idx keys cell avg fin show ?thesis
    unfolding ms_def by blast
qed

lemma ex_partial_ok: "folds_error ex_observed ex_partial (1/2) ms [0..<10] = None"
  by (simp add: ex_observed_def ex_partial_def metrics_error_def upt10 upt9)

lemma ex_partial_taus: "tau_values ex_partial = [1/2]"
  by (simp add: tau_values_def ex_partial_def upt9)

lemma ex_requirement_95:
  "map (fold_val ex_observed ex_predictions (19/20) Requirement) [0..<10]
   = map Fin [14, 14, 14, 14, 14, 14, 14, 14, 14, 14]"
  by (simp add: upt10 fold_val_def metric_val_def ex_predictions_def requirement_def
      series_mean_def mean_real_def)

theorem averaging_collapses_folds_witness:
  "\<exists>s' T a. compute_metrics_for_all_taus initial_state ex_observed ex_predictions True
              = (s', Inr (Averaged T))
     \<and> compute_metrics_for_all_taus initial_state ex_observed ex_predictions False
              = (s', Inr (Per_fold a))
     \<and> map fst (a_columns T) = [1/2, 19/20]
     \<and> avg_cell T ''requirement'' (19/20) = Some (Fin 14)"
proof -
  have oks: "\<forall>t \<in> set (tau_values ex_predictions).
      folds_error ex_observed ex_predictions t default_metrics [0..<10] = None"
    by (simp add: ex_tau_values ex_half_ok ex_95_ok)
  from all_taus_loop_ok [OF oks] obtain s' df
    where l: "all_taus_loop initial_state ex_observed ex_predictions None
                (tau_values ex_predictions) = (s', Inr df)"
    by blast
  have ne: "tau_values ex_predictions \<noteq> []" by (simp add: ex_tau_values)
  from all_taus_explicit [OF l ne] obtain r
    where h: "compute_metrics_for_all_taus initial_state ex_observed ex_predictions True
                = (s', Inr r)"
    by blast
  from averaging_collapses_folds [OF h] obtain T a
    where r: "r = Averaged T"
      and f: "compute_metrics_for_all_taus initial_state ex_observed ex_predictions False
                = (s', Inr (Per_fold a))"
      and ac: "map fst (a_columns T) = tau_values ex_predictions"
      and cells: "\<forall>m \<in> set default_metrics. \<forall>tau \<in> set (tau_values ex_predictions).
          \<forall>xs. map (fold_val ex_observed ex_predictions tau m) [0..<10] = map Fin xs
                \<longrightarrow> avg_cell T (metric_name m) tau = Some (Fin (sum_list xs / 10))"
    by blast
  have m: "Requirement \<in> set default_metrics" by (simp add: default_metrics_def)
  have t: "19/20 \<in> set (tau_values ex_predictions)" by (simp add: ex_tau_values)
  note vals = ex_requirement_95
  from cells m t vals
  have "avg_cell T (metric_name Requirement) (19/20)
      = Some (Fin (sum_list [14, 14, 14, 14, 14, 14, 14, 14, 14, 14] / 10))"
    by blast
  then have c: "avg_cell T ''requirement'' (19/20) = Some (Fin 14)"
    by simp
  from h r f ac c show ?thesis by (simp add: ex_tau_values)
qed

lemma ex_exceeding_partial:
  "map (fold_val ex_observed ex_partial (1/2) Exceeding) [0..<10]
   = [Fin 2, Fin 2, Fin 2, Fin 2, Fin 2, Fin 2, Fin 2, Fin 2, Fin 2, NaN]"
  by (simp add: upt10 upt9 fold_val_def metric_val_def ex_partial_def ex_observed_def
      exceeding_def series_gt_def series_sub_def series_mean_def mean_real_def)

text \<open>
  The claim as the specification states it fails where a per-fold value is NaN: with
  \<open>exceeding\<close> equal to \<open>2\<close> in nine folds and NaN in the tenth, the mean of the ten values
  is NaN, and the averaged cell is \<open>2\<close>.
\<close>

theorem nan_fold_skipped_counterexample:
  "\<exists>s' T a. compute_metrics_for_all_taus initial_state ex_observed ex_partial True
              = (s', Inr (Averaged T))
     \<and> compute_metrics_for_all_taus initial_state ex_observed ex_partial False
              = (s', Inr (Per_fold a))
     \<and> map (\<lambda>cv. frame_cell (frames s' ! a) ''exceeding'' (1/2, cv)) [0..<10]
         = map (\<lambda>v. Some (Num v))
             [Fin 2, Fin 2, Fin 2, Fin 2, Fin 2, Fin 2, Fin 2, Fin 2, Fin 2, NaN]
     \<and> np_mean [Fin 2, Fin 2, Fin 2, Fin 2, Fin 2, Fin 2, Fin 2, Fin 2, Fin 2, NaN] = NaN
     \<and> avg_cell T ''exceeding'' (1/2) = Some (Fin 2)"
proof -
  have oks: "\<forall>t \<in> set (tau_values ex_partial).
      folds_error ex_observed ex_partial t default_metrics [0..<10] = None"
    by (simp add: ex_partial_taus ex_partial_ok)
  from all_taus_loop_ok [OF oks] obtain s' df
    where l: "all_taus_loop initial_state ex_observed ex_partial None
                (tau_values ex_partial) = (s', Inr df)"
    by blast
  have ne: "tau_values ex_partial \<noteq> []" by (simp add: ex_partial_taus)
  define T where "T = \<lparr>a_index = map metric_name default_metrics,
       a_columns = map (\<lambda>t. (t, map (\<lambda>m. group_mean (map (fold_val ex_observed ex_partial t m)
                                                         [0..<10])) default_metrics))
                     (tau_values ex_partial)\<rparr>"
  from all_taus_explicit [OF l ne] obtain a
    where idx: "f_index (frames s' ! a) = map metric_name default_metrics"
      and cols: "f_columns (frames s' ! a)
         = concat (map (\<lambda>t. map (\<lambda>cv. ((t, cv), map (\<lambda>m. Num (fold_val ex_observed ex_partial t m cv))
                                                     default_metrics)) [0..<10])
                     (tau_values ex_partial))"
      and f: "compute_metrics_for_all_taus initial_state ex_observed ex_partial False
                = (s', Inr (Per_fold a))"
      and t: "compute_metrics_for_all_taus initial_state ex_observed ex_partial True
                = (s', Inr (Averaged T))"
    unfolding T_def by blast
  have m: "Exceeding \<in> set default_metrics" by (simp add: default_metrics_def)
  have cell: "frame_cell (frames s' ! a) ''exceeding'' (1/2, cv)
        = Some (Num (fold_val ex_observed ex_partial (1/2) Exceeding cv))" if "cv < 10" for cv
  proof -
    have "frame_column (frames s' ! a) (1/2, cv)
        = Some (map (\<lambda>m. Num (fold_val ex_observed ex_partial (1/2) m cv)) default_metrics)"
      unfolding frame_column_def cols ex_partial_taus
      by (rule map_of_blocks [OF _ that]) simp
    then show ?thesis
      using map_of_labelled [OF inj_metric_name m,
          of "\<lambda>m. Num (fold_val ex_observed ex_partial (1/2) m cv)"]
      by (simp add: frame_cell_def idx)
  qed
  have cells: "map (\<lambda>cv. frame_cell (frames s' ! a) ''exceeding'' (1/2, cv)) [0..<10]
         = map (\<lambda>v. Some (Num v)) (map (fold_val ex_observed ex_partial (1/2) Exceeding) [0..<10])"
    by (simp add: cell)
  have avg: "avg_cell T ''exceeding'' (1/2)
      = Some (group_mean (map (fold_val ex_observed ex_partial (1/2) Exceeding) [0..<10]))"
    using map_of_labelled [OF inj_metric_name m,
        of "\<lambda>m. group_mean (map (fold_val ex_observed ex_partial (1/2) m) [0..<10])"]
    by (simp add: avg_cell_def T_def ex_partial_taus)
  have gm: "group_mean [Fin 2, Fin 2, Fin 2, Fin 2, Fin 2, Fin 2, Fin 2, Fin 2, Fin 2, NaN] = Fin 2"
    by (simp add: group_mean_def np_mean_def)
  have nm: "np_mean [Fin 2, Fin 2, Fin 2, Fin 2, Fin 2, Fin 2, Fin 2, Fin 2, Fin 2, NaN] = NaN"
    by (simp add: np_mean_def)
  have c1: "map (\<lambda>cv. frame_cell (frames s' ! a) ''exceeding'' (1/2, cv)) [0..<10]
         = map (\<lambda>v. Some (Num v))
             [Fin 2, Fin 2, Fin 2, Fin 2, Fin 2, Fin 2, Fin 2, Fin 2, Fin 2, NaN]"
    by (simp only: cells ex_exceeding_partial)
  have c2: "avg_cell T ''exceeding'' (1/2) = Some (Fin 2)"
    by (simp only: avg ex_exceeding_partial gm)
  from t f c1 nm c2 show ?thesis by blast
qed

end
